theory Spec2Isabelle
  imports Complex_Main "HOL-Library.Multiset" "HOL-Library.AList"
begin

text \<open>
  The room and session server of the card game: the deck, the evaluation of guesses, the
  handlers of connections, messages, disconnects and the cleanup sweep, as functions on
  the state of the server, and the properties of the game they have.
\<close>

section \<open>Cards and the deck\<close>

text \<open>
  A card is a suit (one of the four string literals of the source) and a numeric value.
  The field \<open>value\<close> of the source is called \<open>cvalue\<close> here.
\<close>

datatype suit = hearts | diamonds | clubs | spades

fun suit_str :: "suit \<Rightarrow> string" where
  "suit_str hearts = ''hearts''"
| "suit_str diamonds = ''diamonds''"
| "suit_str clubs = ''clubs''"
| "suit_str spades = ''spades''"

record Card =
  suit :: suit
  cvalue :: int

text \<open>
  \<open>Deck.reset\<close> first pushes the cards suit by suit, values 1 to 13, and then shuffles.
  The array \<open>cards\<close> is a list in array order; \<open>pop\<close> takes its last element.
\<close>

definition fresh_cards :: "Card list" where
  "fresh_cards =
     concat (map (\<lambda>s. map (\<lambda>v. \<lparr>suit = s, cvalue = v\<rparr>) [1..13])
                 [hearts, diamonds, clubs, spades])"

text \<open>
  \<open>Deck.shuffle\<close>: for \<open>i\<close> from \<open>length - 1\<close> down to 1, pick
  \<open>j = Math.floor(Math.random() * (i + 1))\<close> and swap the entries \<open>i\<close> and \<open>j\<close>.
  The results of \<open>Math.random()\<close> are an input: \<open>rnd k\<close> is the result of the
  \<open>k\<close>-th call, a number that JavaScript promises to be in \<open>[0, 1)\<close>.
\<close>

fun shuffle_loop :: "nat \<Rightarrow> (nat \<Rightarrow> real) \<Rightarrow> nat \<Rightarrow> Card list \<Rightarrow> Card list" where
  "shuffle_loop 0 rnd k cards = cards"
| "shuffle_loop (Suc i) rnd k cards =
     (let j = nat \<lfloor>rnd k * real (Suc i + 1)\<rfloor>
      in shuffle_loop i rnd (Suc k) (cards[Suc i := cards ! j, j := cards ! Suc i]))"

definition shuffle :: "(nat \<Rightarrow> real) \<Rightarrow> Card list \<Rightarrow> Card list" where
  "shuffle rnd cards = shuffle_loop (length cards - 1) rnd 0 cards"

definition reset :: "(nat \<Rightarrow> real) \<Rightarrow> Card list" where
  "reset rnd = shuffle rnd fresh_cards"

text \<open>\<open>Deck.draw\<close>: \<open>this.cards.pop() || null\<close>, returned with the remaining cards.\<close>

definition draw :: "Card list \<Rightarrow> Card option \<times> Card list" where
  "draw cards = (if cards = [] then (None, []) else (Some (last cards), butlast cards))"

section \<open>Guess evaluation and stage order\<close>

datatype stage = red_black | higher_lower | inside_outside | suit_stage

definition checkGuess :: "string \<Rightarrow> Card \<Rightarrow> Card \<Rightarrow> bool" where
  "checkGuess guess currentCard nextCard =
     (if guess = ''red'' then suit nextCard = hearts \<or> suit nextCard = diamonds
      else if guess = ''black'' then suit nextCard = clubs \<or> suit nextCard = spades
      else if guess = ''higher'' then cvalue nextCard > cvalue currentCard
      else if guess = ''lower'' then cvalue nextCard < cvalue currentCard
      else if guess = ''inside'' then \<bar>cvalue nextCard - cvalue currentCard\<bar> \<le> 3
      else if guess = ''outside'' then \<bar>cvalue nextCard - cvalue currentCard\<bar> > 3
      else suit_str (suit nextCard) = guess)"

fun getNextStage :: "stage option \<Rightarrow> stage option" where
  "getNextStage (Some red_black) = Some higher_lower"
| "getNextStage (Some higher_lower) = Some inside_outside"
| "getNextStage (Some inside_outside) = Some suit_stage"
| "getNextStage (Some suit_stage) = None"
| "getNextStage None = None"

section \<open>Server state\<close>

text \<open>
  The server keeps objects that are shared by reference: a \<open>Room\<close> object is reachable
  from the map \<open>rooms\<close> and from the closure of every message handler registered for a
  socket of that room, and a \<open>Player\<close> object is reachable from \<open>room.players\<close>, from
  the map \<open>players\<close> and from the closure of its own connection. The model therefore has
  an explicit store. A WebSocket object is a number; every admitted connection creates
  exactly one \<open>Player\<close> object, which is stored at the number of its socket; \<open>Room\<close>
  objects are stored at numbers handed out by the counter \<open>nextRoom\<close>.

  Time stamps are integers (milliseconds); one reading of \<open>Date.now()\<close> is supplied for
  each handler run.
\<close>

type_synonym ws = nat
type_synonym player_ref = nat
type_synonym room_ref = nat

datatype readyState = CONNECTING | OPEN | CLOSING | CLOSED

record Player =
  name :: string
  score :: int
  ws :: ws
  roomId :: string
  connectionTime :: int

text \<open>The field \<open>id\<close> of a room is called \<open>room_id\<close>; \<open>players\<close> holds references.\<close>

record Room =
  room_id :: string
  players :: "player_ref list"
  deck :: "Card list"
  currentCard :: "Card option"
  stage :: "stage option"
  isGameStarted :: bool
  createdAt :: int
  lastActivity :: int
  creator :: string

datatype error_code = ROOM_NOT_FOUND | GAME_NOT_ACTIVE | MESSAGE_PARSE_ERROR

text \<open>One entry of the \<open>roomsList\<close> payload: id, players, isGameStarted, playerCount, creator.\<close>

type_synonym room_info = "string \<times> (string \<times> int) list \<times> bool \<times> nat \<times> string"

text \<open>
  Outbound messages. \<open>StateReply\<close> is the answer to \<open>getState\<close>: its type is
  \<open>gameStarted\<close> or \<open>waitingToStart\<close> according to its last field \<open>isGameStarted\<close>.
\<close>

datatype out_msg =
    Pong
  | ErrorMsg error_code string
  | RoomsList "room_info list"
  | PlayerJoined string "(string \<times> int) list"
  | PlayerLeft string "(string \<times> int) list"
  | GameStarted "stage option" "Card option" "(string \<times> int) list"
  | StateReply "stage option" "Card option" "(string \<times> int) list" bool
  | GuessResult string int bool "stage option" "Card option"
  | GameOver "string list" "(string \<times> int) list"
  | RoomClosed string

text \<open>What the server does to sockets: \<open>ws.send(JSON.stringify m)\<close> and \<open>ws.close(code, reason)\<close>.\<close>

datatype effect = Send ws out_msg | Close ws nat string

text \<open>The handlers a connection registers: those of a room-list connection or those of a player, whose closure holds the room.\<close>

datatype handler = ListHandler | RoomHandler room_ref

record world =
  roomObj :: "room_ref \<Rightarrow> Room"
  playerObj :: "player_ref \<Rightarrow> Player"
  rooms :: "(string \<times> room_ref) list"
  playerMap :: "ws \<rightharpoonup> player_ref"
  connections :: "string \<rightharpoonup> ws"
  roomListConnections :: "ws set"
  handlers :: "ws \<rightharpoonup> handler"
  readyState :: "ws \<Rightarrow> readyState"
  nextWs :: ws
  nextRoom :: room_ref
  outbox :: "effect list"

definition MISSING_PARAMS :: nat where "MISSING_PARAMS = 4000"
definition DUPLICATE_CONNECTION :: nat where "DUPLICATE_CONNECTION = 4001"
definition INVALID_ROOM :: nat where "INVALID_ROOM = 4002"
definition INTERNAL_ERROR :: nat where "INTERNAL_ERROR = 4003"

definition CLEANUP_INTERVAL :: int where "CLEANUP_INTERVAL = 5 * 60 * 1000"
definition ROOM_TIMEOUT :: int where "ROOM_TIMEOUT = 30 * 60 * 1000"

text \<open>
  \<open>ws.send\<close> on a socket of the server never throws (the library only throws while a
  socket is still connecting); the message reaches the peer when the socket is open.
  \<open>ws.close\<close> starts the closing handshake of an open socket.
\<close>

definition send :: "ws \<Rightarrow> out_msg \<Rightarrow> world \<Rightarrow> world" where
  "send x m w = w\<lparr>outbox := outbox w @ [Send x m]\<rparr>"

definition ws_close :: "ws \<Rightarrow> nat \<Rightarrow> string \<Rightarrow> world \<Rightarrow> world" where
  "ws_close x code reason w =
     w\<lparr>readyState := (readyState w)(x := (if readyState w x = OPEN then CLOSING else readyState w x)),
       outbox := outbox w @ [Close x code reason]\<rparr>"

definition modRoom :: "room_ref \<Rightarrow> (Room \<Rightarrow> Room) \<Rightarrow> world \<Rightarrow> world" where
  "modRoom r f w = w\<lparr>roomObj := (roomObj w)(r := f (roomObj w r))\<rparr>"

definition modPlayer :: "player_ref \<Rightarrow> (Player \<Rightarrow> Player) \<Rightarrow> world \<Rightarrow> world" where
  "modPlayer p f w = w\<lparr>playerObj := (playerObj w)(p := f (playerObj w p))\<rparr>"

text \<open>\<open>room.players.map(p => ({ name: p.name, score: p.score }))\<close>\<close>

definition projection :: "world \<Rightarrow> room_ref \<Rightarrow> (string \<times> int) list" where
  "projection w r = map (\<lambda>p. (name (playerObj w p), score (playerObj w p))) (players (roomObj w r))"

text \<open>
  \<open>broadcastToRoom\<close> stamps the room and sends the message to every player of the room
  whose socket is open, in the order of \<open>room.players\<close>.
\<close>

definition deliveries :: "world \<Rightarrow> room_ref \<Rightarrow> out_msg \<Rightarrow> effect list" where
  "deliveries w r message =
     map (\<lambda>p. Send (ws (playerObj w p)) message)
         (filter (\<lambda>p. readyState w (ws (playerObj w p)) = OPEN) (players (roomObj w r)))"

definition broadcastToRoom :: "room_ref \<Rightarrow> out_msg \<Rightarrow> int \<Rightarrow> world \<Rightarrow> world" where
  "broadcastToRoom r message now w =
     (let w1 = modRoom r (\<lambda>R. R\<lparr>lastActivity := now\<rparr>) w
      in w1\<lparr>outbox := outbox w1 @ deliveries w1 r message\<rparr>)"

section \<open>The game\<close>

text \<open>\<open>Math.max(...scores)\<close>; \<open>None\<close> is \<open>-Infinity\<close>, its value for no arguments.\<close>

fun math_max :: "int list \<Rightarrow> int option" where
  "math_max [] = None"
| "math_max (x # xs) = (case math_max xs of None \<Rightarrow> Some x | Some m \<Rightarrow> Some (max x m))"

definition handleGameOver :: "room_ref \<Rightarrow> int \<Rightarrow> world \<Rightarrow> world" where
  "handleGameOver r now w =
     (let ps = map (playerObj w) (players (roomObj w r));
          maxScore = math_max (map score ps);
          winners = map name (filter (\<lambda>p. Some (score p) = maxScore) ps);
          w1 = broadcastToRoom r (GameOver winners (projection w r)) now w
      in modRoom r (\<lambda>R. R\<lparr>isGameStarted := False, stage := None, currentCard := None\<rparr>) w1)"

text \<open>The branch \<open>case 'startGame'\<close> of the message handler, for the room \<open>r\<close> of its closure.\<close>

definition startGame :: "room_ref \<Rightarrow> int \<Rightarrow> (nat \<Rightarrow> real) \<Rightarrow> world \<Rightarrow> world" where
  "startGame r now rnd w =
     (if \<not> isGameStarted (roomObj w r) then
        (let (c, rest) = draw (reset rnd);
             w1 = modRoom r (\<lambda>R. R\<lparr>isGameStarted := True, deck := rest,
                                     stage := Some red_black, currentCard := c\<rparr>) w
         in broadcastToRoom r
              (GameStarted (stage (roomObj w1 r)) (currentCard (roomObj w1 r)) (projection w1 r))
              now w1)
      else w)"

text \<open>
  The branch \<open>case 'guess'\<close>, for the socket \<open>x\<close> that sent the message, the room \<open>r\<close>
  and the player object of its closure (stored at \<open>x\<close>).
\<close>

definition guess :: "ws \<Rightarrow> room_ref \<Rightarrow> string \<Rightarrow> int \<Rightarrow> world \<Rightarrow> world" where
  "guess x r g now w =
     (if \<not> isGameStarted (roomObj w r) then send x (ErrorMsg GAME_NOT_ACTIVE ''Game is not active'') w
      else case currentCard (roomObj w r) of
        None \<Rightarrow> send x (ErrorMsg GAME_NOT_ACTIVE ''Game is not active'') w
      | Some cur \<Rightarrow>
         (case draw (deck (roomObj w r)) of
            (None, rest) \<Rightarrow> handleGameOver r now (modRoom r (\<lambda>R. R\<lparr>deck := rest\<rparr>) w)
          | (Some nextCard, rest) \<Rightarrow>
             (let w1 = modRoom r (\<lambda>R. R\<lparr>deck := rest\<rparr>) w;
                  isCorrect = checkGuess g cur nextCard;
                  w2 = (if isCorrect then modPlayer x (\<lambda>P. P\<lparr>score := score P + 1\<rparr>) w1 else w1);
                  w3 = modRoom r (\<lambda>R. R\<lparr>currentCard := Some nextCard\<rparr>) w2;
                  w4 = modRoom r (\<lambda>R. R\<lparr>stage := getNextStage (stage R)\<rparr>) w3;
                  w5 = broadcastToRoom r
                         (GuessResult (name (playerObj w4 x)) (score (playerObj w4 x)) isCorrect
                            (stage (roomObj w4 r)) (currentCard (roomObj w4 r)))
                         now w4
              in if stage (roomObj w5 r) = None then handleGameOver r now w5 else w5)))"

definition getState :: "ws \<Rightarrow> room_ref \<Rightarrow> world \<Rightarrow> world" where
  "getState x r w =
     send x (StateReply (stage (roomObj w r)) (currentCard (roomObj w r)) (projection w r)
               (isGameStarted (roomObj w r))) w"

text \<open>
  Inbound messages, by their \<open>type\<close> field. \<open>GuessMsg\<close> carries the field \<open>guess\<close>,
  a string as \<open>checkGuess\<close> declares it. \<open>Other\<close> is a JSON value with any other
  type (the \<open>switch\<close> has no default branch); \<open>Malformed\<close> is a payload on which
  \<open>JSON.parse\<close> or the read of \<open>data.type\<close> throws. The handler of a player
  connection stamps the room after parsing and then dispatches.
\<close>

datatype in_msg = Ping | StartGameMsg | GuessMsg string | GetStateMsg | GetRoomsMsg | Other | Malformed

definition roomMessage :: "ws \<Rightarrow> room_ref \<Rightarrow> in_msg \<Rightarrow> int \<Rightarrow> (nat \<Rightarrow> real) \<Rightarrow> world \<Rightarrow> world" where
  "roomMessage x r m now rnd w =
     (case m of
        Malformed \<Rightarrow> send x (ErrorMsg MESSAGE_PARSE_ERROR ''Could not process your request'') w
      | Ping \<Rightarrow> send x Pong (modRoom r (\<lambda>R. R\<lparr>lastActivity := now\<rparr>) w)
      | StartGameMsg \<Rightarrow> startGame r now rnd (modRoom r (\<lambda>R. R\<lparr>lastActivity := now\<rparr>) w)
      | GuessMsg g \<Rightarrow> guess x r g now (modRoom r (\<lambda>R. R\<lparr>lastActivity := now\<rparr>) w)
      | GetStateMsg \<Rightarrow> getState x r (modRoom r (\<lambda>R. R\<lparr>lastActivity := now\<rparr>) w)
      | GetRoomsMsg \<Rightarrow> modRoom r (\<lambda>R. R\<lparr>lastActivity := now\<rparr>) w
      | Other \<Rightarrow> modRoom r (\<lambda>R. R\<lparr>lastActivity := now\<rparr>) w)"

section \<open>Connections\<close>

text \<open>\<open>sendRoomsList\<close> of a room-list connection: one entry for each entry of \<open>rooms\<close>, in the order of the map.\<close>

definition roomsList :: "world \<Rightarrow> room_info list" where
  "roomsList w =
     map (\<lambda>(i, r). (i, projection w r, isGameStarted (roomObj w r),
                     length (players (roomObj w r)), creator (roomObj w r)))
         (rooms w)"

definition sendRoomsList :: "ws \<Rightarrow> world \<Rightarrow> world" where
  "sendRoomsList x w = (if readyState w x = OPEN then send x (RoomsList (roomsList w)) w else w)"

definition listMessage :: "ws \<Rightarrow> in_msg \<Rightarrow> world \<Rightarrow> world" where
  "listMessage x m w =
     (case m of Ping \<Rightarrow> send x Pong w | GetRoomsMsg \<Rightarrow> sendRoomsList x w | _ \<Rightarrow> w)"

text \<open>
  \<open>handlePlayerDisconnect\<close> (its arguments \<open>code\<close> and \<open>reason\<close> are only logged).
  It looks the room up in \<open>rooms\<close> under the player's \<open>roomId\<close>.
\<close>

definition handlePlayerDisconnect :: "ws \<Rightarrow> int \<Rightarrow> world \<Rightarrow> world" where
  "handlePlayerDisconnect x now w =
     (case playerMap w x of
        None \<Rightarrow> w
      | Some p \<Rightarrow>
         (let key = roomId (playerObj w p) @ '':'' @ name (playerObj w p)
          in case map_of (rooms w) (roomId (playerObj w p)) of
               None \<Rightarrow> w\<lparr>playerMap := (playerMap w)(x := None),
                          connections := (connections w)(key := None)\<rparr>
             | Some r \<Rightarrow>
                (let w1 = modRoom r (\<lambda>R. R\<lparr>players := filter (\<lambda>q. ws (playerObj w q) \<noteq> x) (players R)\<rparr>) w;
                     w2 = w1\<lparr>connections := (connections w1)(key := None),
                             playerMap := (playerMap w1)(x := None)\<rparr>
                 in if players (roomObj w2 r) = []
                    then w2\<lparr>rooms := AList.delete (room_id (roomObj w2 r)) (rooms w2)\<rparr>
                    else broadcastToRoom r (PlayerLeft (name (playerObj w2 p)) (projection w2 r)) now w2)))"

text \<open>The body of the cleanup sweep for one entry of \<open>rooms\<close>, and the sweep.\<close>

definition cleanupRoom :: "int \<Rightarrow> string \<times> room_ref \<Rightarrow> world \<Rightarrow> world" where
  "cleanupRoom now e w =
     (case e of (i, r) \<Rightarrow>
        if now - lastActivity (roomObj w r) > ROOM_TIMEOUT then
          (let w1 = broadcastToRoom r (RoomClosed ''Room closed due to inactivity'') now w;
               ps = players (roomObj w1 r);
               w2 = fold (\<lambda>p. ws_close (ws (playerObj w1 p)) INVALID_ROOM ''Room closed due to inactivity'') ps w1;
               w3 = fold (\<lambda>p v. v\<lparr>playerMap := (playerMap v)(ws (playerObj v p) := None),
                                   connections := (connections v)
                                      (roomId (playerObj v p) @ '':'' @ name (playerObj v p) := None)\<rparr>) ps w2
           in w3\<lparr>rooms := AList.delete i (rooms w3)\<rparr>)
        else w)"

definition cleanup :: "int \<Rightarrow> world \<Rightarrow> world" where
  "cleanup now w = fold (cleanupRoom now) (rooms w) w"

text \<open>
  The \<open>connection\<close> handler. A query parameter is \<open>None\<close> when it is absent; \<open>!roomId\<close>
  holds for an absent and for an empty parameter.
\<close>

fun truthy :: "string option \<Rightarrow> string option" where
  "truthy None = None"
| "truthy (Some s) = (if s = [] then None else Some s)"

text \<open>Room lookup or creation, the new player, the \<open>playerJoined\<close> broadcast and the registration of the handlers.\<close>

definition join :: "ws \<Rightarrow> string \<Rightarrow> string \<Rightarrow> int \<Rightarrow> (nat \<Rightarrow> real) \<Rightarrow> world \<Rightarrow> world" where
  "join x i playerName now rnd w =
     (let w1 = w\<lparr>connections := (connections w)(i @ '':'' @ playerName \<mapsto> x)\<rparr>;
          (r, w2) =
            (case map_of (rooms w1) i of
               None \<Rightarrow>
                 (nextRoom w1,
                  w1\<lparr>nextRoom := Suc (nextRoom w1),
                     roomObj := (roomObj w1)(nextRoom w1 :=
                        \<lparr>room_id = i, players = [], deck = reset rnd, currentCard = None,
                         stage = None, isGameStarted = False, createdAt = now,
                         lastActivity = now, creator = playerName\<rparr>),
                     rooms := AList.update i (nextRoom w1) (rooms w1)\<rparr>)
             | Some r \<Rightarrow> (r, modRoom r (\<lambda>R. R\<lparr>lastActivity := now\<rparr>) w1));
          w3 = w2\<lparr>playerObj := (playerObj w2)(x :=
                  \<lparr>name = playerName, score = 0, ws = x, roomId = i, connectionTime = now\<rparr>)\<rparr>;
          w4 = modRoom r (\<lambda>R. R\<lparr>players := filter (\<lambda>p. name (playerObj w3 p) \<noteq> playerName) (players R)\<rparr>) w3;
          w5 = modRoom r (\<lambda>R. R\<lparr>players := players R @ [x]\<rparr>) w4;
          w6 = w5\<lparr>playerMap := (playerMap w5)(x \<mapsto> x)\<rparr>;
          w7 = broadcastToRoom r (PlayerJoined playerName (projection w6 r)) now w6;
          w8 = w7\<lparr>handlers := (handlers w7)(x \<mapsto> RoomHandler r)\<rparr>
      in if isGameStarted (roomObj w8 r)
         then send x (GameStarted (stage (roomObj w8 r)) (currentCard (roomObj w8 r)) (projection w8 r)) w8
         else w8)"

text \<open>The duplicate check in front of it.\<close>

definition admit :: "ws \<Rightarrow> string \<Rightarrow> string \<Rightarrow> int \<Rightarrow> (nat \<Rightarrow> real) \<Rightarrow> world \<Rightarrow> world" where
  "admit x i playerName now rnd w =
     (case connections w (i @ '':'' @ playerName) of
        None \<Rightarrow> join x i playerName now rnd w
      | Some existingWs \<Rightarrow>
          if readyState w existingWs = OPEN
          then ws_close x DUPLICATE_CONNECTION ''You are already connected to this room'' w
          else
            (let w1 = w\<lparr>playerMap := (playerMap w)(existingWs := None),
                        connections := (connections w)(i @ '':'' @ playerName := None)\<rparr>;
                 w2 = (if readyState w1 existingWs \<noteq> CLOSED
                       then ws_close existingWs 1000 ''Replaced by new connection'' w1 else w1)
             in join x i playerName now rnd w2))"

text \<open>
  The library hands the handler a new socket, which is open: the model takes the next
  unused number for it.
\<close>

definition onConnection :: "string option \<Rightarrow> string option \<Rightarrow> int \<Rightarrow> (nat \<Rightarrow> real) \<Rightarrow> world \<Rightarrow> world" where
  "onConnection roomParam nameParam now rnd w0 =
     (let x = nextWs w0;
          w = w0\<lparr>nextWs := Suc x, readyState := (readyState w0)(x := OPEN)\<rparr>
      in case (truthy roomParam, truthy nameParam) of
           (None, None) \<Rightarrow>
             sendRoomsList x (w\<lparr>roomListConnections := insert x (roomListConnections w),
                                handlers := (handlers w)(x \<mapsto> ListHandler)\<rparr>)
         | (Some i, Some playerName) \<Rightarrow> admit x i playerName now rnd w
         | _ \<Rightarrow> ws_close x MISSING_PARAMS ''Missing room ID or player name'' w)"

section \<open>Events\<close>

text \<open>
  What can happen to the server: a connection arrives, a socket delivers a message, a
  socket leaves the open state (no handler runs), a socket emits \<open>close\<close> or \<open>error\<close>,
  the cleanup interval fires, the interval of a room-list connection fires.
\<close>

datatype event =
    Connect "string option" "string option"
  | Message ws in_msg
  | Closing ws
  | CloseEvent ws
  | ErrorEvent ws
  | CleanupTick
  | RoomListTick ws

definition onMessage :: "ws \<Rightarrow> in_msg \<Rightarrow> int \<Rightarrow> (nat \<Rightarrow> real) \<Rightarrow> world \<Rightarrow> world" where
  "onMessage x m now rnd w =
     (case handlers w x of
        None \<Rightarrow> w
      | Some ListHandler \<Rightarrow> listMessage x m w
      | Some (RoomHandler r) \<Rightarrow> roomMessage x r m now rnd w)"

definition onClose :: "ws \<Rightarrow> int \<Rightarrow> world \<Rightarrow> world" where
  "onClose x now w0 =
     (let w = w0\<lparr>readyState := (readyState w0)(x := CLOSED)\<rparr>
      in case handlers w x of
           None \<Rightarrow> w
         | Some ListHandler \<Rightarrow> w\<lparr>roomListConnections := roomListConnections w - {x}\<rparr>
         | Some (RoomHandler r) \<Rightarrow> handlePlayerDisconnect x now w)"

definition onError :: "ws \<Rightarrow> int \<Rightarrow> world \<Rightarrow> world" where
  "onError x now w =
     (case handlers w x of
        Some (RoomHandler r) \<Rightarrow> handlePlayerDisconnect x now w
      | _ \<Rightarrow> w)"

definition step :: "event \<Rightarrow> int \<Rightarrow> (nat \<Rightarrow> real) \<Rightarrow> world \<Rightarrow> world" where
  "step e now rnd w =
     (case e of
        Connect roomParam nameParam \<Rightarrow> onConnection roomParam nameParam now rnd w
      | Message x m \<Rightarrow> onMessage x m now rnd w
      | Closing x \<Rightarrow> w\<lparr>readyState := (readyState w)(x := (if readyState w x = OPEN then CLOSING else readyState w x))\<rparr>
      | CloseEvent x \<Rightarrow> onClose x now w
      | ErrorEvent x \<Rightarrow> onError x now w
      | CleanupTick \<Rightarrow> cleanup now w
      | RoomListTick x \<Rightarrow> (if x \<in> roomListConnections w then sendRoomsList x w else w))"

text \<open>The server at start: no object, no socket, empty maps. The contents of unused store cells are irrelevant.\<close>

definition blankRoom :: Room where
  "blankRoom = \<lparr>room_id = [], players = [], deck = [], currentCard = None, stage = None,
                isGameStarted = False, createdAt = 0, lastActivity = 0, creator = []\<rparr>"

definition blankPlayer :: Player where
  "blankPlayer = \<lparr>name = [], score = 0, ws = 0, roomId = [], connectionTime = 0\<rparr>"

definition initial :: world where
  "initial = \<lparr>roomObj = (\<lambda>_. blankRoom), playerObj = (\<lambda>_. blankPlayer), rooms = [],
              playerMap = Map.empty, connections = Map.empty, roomListConnections = {},
              handlers = Map.empty, readyState = (\<lambda>_. CONNECTING), nextWs = 0, nextRoom = 0,
              outbox = []\<rparr>"

text \<open>The states the server can be in between two handler runs; \<open>Math.random\<close> returns numbers in \<open>[0, 1)\<close>.\<close>

definition unit_interval :: "(nat \<Rightarrow> real) \<Rightarrow> bool" where
  "unit_interval rnd = (\<forall>k. 0 \<le> rnd k \<and> rnd k < 1)"

inductive reachable :: "world \<Rightarrow> bool" where
  reachable_initial: "reachable initial"
| reachable_step: "reachable w \<Longrightarrow> unit_interval rnd \<Longrightarrow> reachable (step e now rnd w)"

section \<open>The specification's account of a guess and of game-over\<close>

text \<open>
  The specification describes game-over by its result: the winners are the players whose
  score no other player of the room exceeds; \<open>gameOver\<close> goes to the open sockets of the
  room; the room returns to waiting. \<open>spec_winners\<close> and \<open>spec_gameOver\<close> say this in
  terms of the state before, to be compared with \<open>handleGameOver\<close>.
\<close>

definition spec_winners :: "world \<Rightarrow> room_ref \<Rightarrow> string list" where
  "spec_winners w r =
     map (\<lambda>p. name (playerObj w p))
         (filter (\<lambda>p. \<forall>q \<in> set (players (roomObj w r)). score (playerObj w q) \<le> score (playerObj w p))
                 (players (roomObj w r)))"

definition spec_gameOver :: "room_ref \<Rightarrow> int \<Rightarrow> world \<Rightarrow> world" where
  "spec_gameOver r now w =
     w\<lparr>roomObj := (roomObj w)(r := (roomObj w r)
          \<lparr>currentCard := None, stage := None, isGameStarted := False, lastActivity := now\<rparr>),
       outbox := outbox w @ deliveries w r (GameOver (spec_winners w r) (projection w r))\<rparr>"

text \<open>
  The specification's account of an evaluated guess of the socket \<open>x\<close> in room \<open>r\<close> whose
  current card is \<open>cur\<close>, before any game-over: the top card is drawn, the sender's score
  grows by one if the guess is correct, the stage advances, the drawn card becomes the
  current card, and \<open>guessResult\<close> carries the new score, the next stage and the new card.
\<close>

definition spec_guess :: "ws \<Rightarrow> room_ref \<Rightarrow> string \<Rightarrow> Card \<Rightarrow> int \<Rightarrow> world \<Rightarrow> world" where
  "spec_guess x r g cur now w =
     (let nextCard = last (deck (roomObj w r));
          isCorrect = checkGuess g cur nextCard;
          newScore = score (playerObj w x) + (if isCorrect then 1 else 0);
          nextStage = getNextStage (stage (roomObj w r))
      in w\<lparr>roomObj := (roomObj w)(r := (roomObj w r)
               \<lparr>deck := butlast (deck (roomObj w r)), currentCard := Some nextCard,
                stage := nextStage, lastActivity := now\<rparr>),
            playerObj := (playerObj w)(x := (playerObj w x)\<lparr>score := newScore\<rparr>),
            outbox := outbox w @
               deliveries w r (GuessResult (name (playerObj w x)) newScore isCorrect nextStage (Some nextCard))\<rparr>)"

text \<open>The specification's invariant of a room: while it is not started it has no current card and no stage.\<close>

definition room_ok :: "Room \<Rightarrow> bool" where
  "room_ok R = (\<not> isGameStarted R \<longrightarrow> currentCard R = None \<and> stage R = None)"

definition all_ok :: "world \<Rightarrow> bool" where
  "all_ok w = (\<forall>r. room_ok (roomObj w r))"

text \<open>
  A started room is in one of the four stages, has a current card, and its deck holds what
  is left of 52 cards after the start and one guess for each earlier stage.
\<close>

fun stage_index :: "stage \<Rightarrow> nat" where
  "stage_index red_black = 0"
| "stage_index higher_lower = 1"
| "stage_index inside_outside = 2"
| "stage_index suit_stage = 3"

definition room_dealt :: "Room \<Rightarrow> bool" where
  "room_dealt R =
     (isGameStarted R \<longrightarrow>
        currentCard R \<noteq> None \<and>
        (\<exists>st. stage R = Some st \<and> length (deck R) + stage_index st = 51))"

definition all_dealt :: "world \<Rightarrow> bool" where
  "all_dealt w = (\<forall>r. room_dealt (roomObj w r))"

text \<open>Every registered socket was handed out before: its number is below the counter.\<close>

definition sockets_known :: "world \<Rightarrow> bool" where
  "sockets_known w = (\<forall>k e. connections w k = Some e \<longrightarrow> e < nextWs w)"

fun is_error :: "effect \<Rightarrow> bool" where
  "is_error (Send x (ErrorMsg c m)) = True"
| "is_error e = False"

section \<open>Example runs\<close>

text \<open>
  A random source that always returns 0; a room \<open>ABC123\<close> created by Alice and joined by
  Bob; the same room after Alice has started the game; and that room with its deck
  emptied by hand.
\<close>

definition rnd0 :: "nat \<Rightarrow> real" where
  "rnd0 = (\<lambda>_. 0)"

definition lobby :: world where
  "lobby = step (Connect (Some ''ABC123'') (Some ''Bob'')) 20 rnd0
             (step (Connect (Some ''ABC123'') (Some ''Alice'')) 10 rnd0 initial)"

definition started :: world where
  "started = step (Message 0 StartGameMsg) 30 rnd0 lobby"

definition drained :: world where
  "drained = modRoom 0 (\<lambda>R. R\<lparr>deck := []\<rparr>) started"

text \<open>A whole round in the room of Alice and Bob: Alice starts, then they guess in turn.\<close>

definition round_end :: world where
  "round_end =
     onMessage 1 (GuessMsg ''spades'') 80 rnd0
       (onMessage 0 (GuessMsg ''inside'') 70 rnd0
         (onMessage 1 (GuessMsg ''lower'') 60 rnd0
           (onMessage 0 (GuessMsg ''black'') 50 rnd0
             (onMessage 0 StartGameMsg 40 rnd0 lobby))))"

section \<open>Basic facts\<close>

lemma deliveries_cong:
  "players (roomObj w' r) = players (roomObj w r) \<Longrightarrow> readyState w' = readyState w \<Longrightarrow>
   (\<And>p. ws (playerObj w' p) = ws (playerObj w p)) \<Longrightarrow> deliveries w' r m = deliveries w r m"
  by (simp add: deliveries_def)

lemma projection_cong:
  "players (roomObj w' r) = players (roomObj w r) \<Longrightarrow> playerObj w' = playerObj w \<Longrightarrow>
   projection w' r = projection w r"
  by (simp add: projection_def)

lemma draw_nonempty: "cards \<noteq> [] \<Longrightarrow> draw cards = (Some (last cards), butlast cards)"
  by (simp add: draw_def)

lemma draw_empty: "draw [] = (None, [])"
  by (simp add: draw_def)

lemma math_max_Some: "xs \<noteq> [] \<Longrightarrow> math_max xs = Some (Max (set xs))"
proof (induction xs)
  case Nil
  then show ?case by simp
next
  case (Cons x xs)
  show ?case
  proof (cases "xs = []")
    case True
    then show ?thesis by simp
  next
    case False
    with Cons.IH show ?thesis by (simp add: max.commute)
  qed
qed

lemma math_max_top: "x \<in> set xs \<Longrightarrow> (Some x = math_max xs) = (\<forall>y \<in> set xs. y \<le> x)"
proof -
  assume x: "x \<in> set xs"
  then have ne: "xs \<noteq> []" by auto
  have "(x = Max (set xs)) = (\<forall>y \<in> set xs. y \<le> x)"
    using x by (metis Max_eqI List.finite_set Max_ge)
  then show ?thesis by (simp add: math_max_Some[OF ne])
qed

lemma winners_eq:
  "map name (filter (\<lambda>P. Some (score P) = math_max (map score (map (playerObj w) (players (roomObj w r)))))
                    (map (playerObj w) (players (roomObj w r)))) = spec_winners w r"
proof -
  let ?ps = "players (roomObj w r)"
  have "filter ((\<lambda>P. Some (score P) = math_max (map score (map (playerObj w) ?ps))) \<circ> playerObj w) ?ps
      = filter (\<lambda>p. \<forall>q \<in> set ?ps. score (playerObj w q) \<le> score (playerObj w p)) ?ps"
  proof (rule filter_cong[OF refl])
    fix p assume "p \<in> set ?ps"
    then have "score (playerObj w p) \<in> set (map score (map (playerObj w) ?ps))" by force
    from math_max_top[OF this]
    show "((\<lambda>P. Some (score P) = math_max (map score (map (playerObj w) ?ps))) \<circ> playerObj w) p
        = (\<forall>q \<in> set ?ps. score (playerObj w q) \<le> score (playerObj w p))"
      by simp
  qed
  then show ?thesis by (simp add: spec_winners_def filter_map comp_def)
qed

lemma handleGameOver_eq: "handleGameOver r now w = spec_gameOver r now w"
proof -
  have d: "deliveries (modRoom r (\<lambda>R. R\<lparr>lastActivity := now\<rparr>) w) r m = deliveries w r m" for m
    by (rule deliveries_cong) (simp_all add: modRoom_def)
  show ?thesis
    unfolding handleGameOver_def Let_def winners_eq broadcastToRoom_def d
    by (rule world.equality) (auto simp add: spec_gameOver_def modRoom_def intro!: Room.equality ext)
qed

lemma guess_active:
  assumes "isGameStarted (roomObj w r)" "currentCard (roomObj w r) = Some cur" "deck (roomObj w r) \<noteq> []"
  shows "guess x r g now w =
     (if getNextStage (stage (roomObj w r)) = None then handleGameOver r now (spec_guess x r g cur now w)
      else spec_guess x r g cur now w)"
proof -
  let ?n = "last (deck (roomObj w r))"
  let ?ok = "checkGuess g cur ?n"
  let ?w1 = "modRoom r (\<lambda>R. R\<lparr>deck := butlast (deck (roomObj w r))\<rparr>) w"
  let ?w2 = "if ?ok then modPlayer x (\<lambda>P. P\<lparr>score := score P + 1\<rparr>) ?w1 else ?w1"
  let ?w3 = "modRoom r (\<lambda>R. R\<lparr>currentCard := Some ?n\<rparr>) ?w2"
  let ?w4 = "modRoom r (\<lambda>R. R\<lparr>stage := getNextStage (stage R)\<rparr>) ?w3"
  let ?gr = "GuessResult (name (playerObj ?w4 x)) (score (playerObj ?w4 x)) ?ok (stage (roomObj ?w4 r)) (currentCard (roomObj ?w4 r))"
  let ?w5 = "broadcastToRoom r ?gr now ?w4"
  have d: "deliveries (modRoom r (\<lambda>R. R\<lparr>lastActivity := now\<rparr>) ?w4) r m = deliveries w r m" for m
    by (rule deliveries_cong) (simp_all add: modRoom_def modPlayer_def)
  have w5: "?w5 = spec_guess x r g cur now w"
    unfolding broadcastToRoom_def Let_def d
    by (simp add: spec_guess_def modRoom_def modPlayer_def Let_def fun_upd_twist)
  have "guess x r g now w = (if stage (roomObj ?w5 r) = None then handleGameOver r now ?w5 else ?w5)"
    using assms by (simp add: guess_def draw_nonempty Let_def)
  moreover have "stage (roomObj ?w5 r) = getNextStage (stage (roomObj w r))"
    unfolding w5 by (simp add: spec_guess_def Let_def)
  ultimately show ?thesis unfolding w5 by simp
qed

lemma guess_empty_deck:
  assumes "isGameStarted (roomObj w r)" "currentCard (roomObj w r) = Some cur" "deck (roomObj w r) = []"
  shows "guess x r g now w = handleGameOver r now w"
proof -
  have "roomObj w r\<lparr>deck := []\<rparr> = roomObj w r"
    using assms(3) by (intro Room.equality) simp_all
  then have "modRoom r (\<lambda>R. R\<lparr>deck := []\<rparr>) w = w"
    by (simp add: modRoom_def)
  then show ?thesis using assms by (simp add: guess_def draw_empty)
qed

lemma guess_inactive:
  assumes "\<not> isGameStarted (roomObj w r) \<or> currentCard (roomObj w r) = None"
  shows "guess x r g now w = send x (ErrorMsg GAME_NOT_ACTIVE ''Game is not active'') w"
  using assms by (auto simp add: guess_def)

lemma touch_fields:
  "isGameStarted (roomObj (modRoom r (\<lambda>R. R\<lparr>lastActivity := now\<rparr>) w) r') = isGameStarted (roomObj w r')"
  "currentCard (roomObj (modRoom r (\<lambda>R. R\<lparr>lastActivity := now\<rparr>) w) r') = currentCard (roomObj w r')"
  "stage (roomObj (modRoom r (\<lambda>R. R\<lparr>lastActivity := now\<rparr>) w) r') = stage (roomObj w r')"
  "deck (roomObj (modRoom r (\<lambda>R. R\<lparr>lastActivity := now\<rparr>) w) r') = deck (roomObj w r')"
  "players (roomObj (modRoom r (\<lambda>R. R\<lparr>lastActivity := now\<rparr>) w) r') = players (roomObj w r')"
  "playerObj (modRoom r f w) = playerObj w"
  "outbox (modRoom r f w) = outbox w"
  "readyState (modRoom r f w) = readyState w"
  "handlers (modRoom r f w) = handlers w"
  by (simp_all add: modRoom_def)

lemma spec_guess_touch:
  "spec_guess x r g cur now (modRoom r (\<lambda>R. R\<lparr>lastActivity := t\<rparr>) w) = spec_guess x r g cur now w"
proof -
  have d: "deliveries (modRoom r (\<lambda>R. R\<lparr>lastActivity := t\<rparr>) w) r m = deliveries w r m" for m
    by (rule deliveries_cong) (simp_all add: modRoom_def)
  show ?thesis unfolding spec_guess_def Let_def d touch_fields
    by (simp add: modRoom_def)
qed

lemma spec_gameOver_touch:
  "spec_gameOver r now (modRoom r (\<lambda>R. R\<lparr>lastActivity := t\<rparr>) w) = spec_gameOver r now w"
proof -
  have d: "deliveries (modRoom r (\<lambda>R. R\<lparr>lastActivity := t\<rparr>) w) r m = deliveries w r m" for m
    by (rule deliveries_cong) (simp_all add: modRoom_def)
  have p: "projection (modRoom r (\<lambda>R. R\<lparr>lastActivity := t\<rparr>) w) r = projection w r"
    by (rule projection_cong) (simp_all add: modRoom_def)
  have s: "spec_winners (modRoom r (\<lambda>R. R\<lparr>lastActivity := t\<rparr>) w) r = spec_winners w r"
    by (simp add: spec_winners_def touch_fields)
  show ?thesis unfolding spec_gameOver_def d p s
    by (simp add: modRoom_def)
qed

lemma deliveries_no_error:
  "(\<And>c t. m \<noteq> ErrorMsg c t) \<Longrightarrow> e \<in> set (deliveries w r m) \<Longrightarrow> \<not> is_error e"
  by (cases m) (auto simp add: deliveries_def)

subsection \<open>The deck\<close>

lemma random_index:
  assumes "0 \<le> u" "u < 1"
  shows "nat \<lfloor>u * real (Suc i + 1)\<rfloor> \<le> Suc i"
proof -
  have "u * real (Suc i + 1) < real (Suc i + 1)" using assms by simp
  then have "\<lfloor>u * real (Suc i + 1)\<rfloor> < int (Suc i + 1)" by (simp add: floor_less_iff)
  then show ?thesis by simp
qed

lemma shuffle_loop_mset:
  "unit_interval rnd \<Longrightarrow> i < length cards \<Longrightarrow> mset (shuffle_loop i rnd k cards) = mset cards"
proof (induction i arbitrary: k cards)
  case 0
  then show ?case by simp
next
  case (Suc i)
  let ?j = "nat \<lfloor>rnd k * real (Suc i + 1)\<rfloor>"
  have j: "?j \<le> Suc i" using Suc.prems(1) by (intro random_index) (simp_all add: unit_interval_def)
  let ?c = "cards[Suc i := cards ! ?j, ?j := cards ! Suc i]"
  have "mset ?c = mset cards" using j Suc.prems(2) by (simp add: mset_swap)
  moreover have "mset (shuffle_loop i rnd (Suc k) ?c) = mset ?c"
    using Suc.prems by (intro Suc.IH) simp_all
  ultimately show ?case by (simp add: Let_def)
qed

lemma shuffle_mset: "unit_interval rnd \<Longrightarrow> mset (shuffle rnd cards) = mset cards"
  by (cases "cards = []") (simp_all add: shuffle_def shuffle_loop_mset)

lemma reset_mset: "unit_interval rnd \<Longrightarrow> mset (reset rnd) = mset fresh_cards"
  by (simp add: reset_def shuffle_mset)

lemma length_fresh_cards: "length fresh_cards = 52"
  by (simp add: fresh_cards_def)


lemma length_reset: "unit_interval rnd \<Longrightarrow> length (reset rnd) = 52"
  using reset_mset[THEN arg_cong, of rnd size] by (simp add: length_fresh_cards)

lemma reset_nonempty: "unit_interval rnd \<Longrightarrow> reset rnd \<noteq> []"
  using length_reset by fastforce

lemma startGame_waiting:
  assumes "\<not> isGameStarted (roomObj w r)" "reset rnd \<noteq> []"
  shows "startGame r now rnd w =
     w\<lparr>roomObj := (roomObj w)(r := (roomObj w r)
          \<lparr>deck := butlast (reset rnd), currentCard := Some (last (reset rnd)),
           stage := Some red_black, isGameStarted := True, lastActivity := now\<rparr>),
       outbox := outbox w @
          deliveries w r (GameStarted (Some red_black) (Some (last (reset rnd))) (projection w r))\<rparr>"
proof -
  let ?w1 = "modRoom r (\<lambda>R. R\<lparr>isGameStarted := True, deck := butlast (reset rnd),
                 stage := Some red_black, currentCard := Some (last (reset rnd))\<rparr>) w"
  have d: "deliveries (modRoom r (\<lambda>R. R\<lparr>lastActivity := now\<rparr>) ?w1) r m = deliveries w r m" for m
    by (rule deliveries_cong) (simp_all add: modRoom_def)
  have p: "projection ?w1 r = projection w r"
    by (rule projection_cong) (simp_all add: modRoom_def)
  have "startGame r now rnd w =
     broadcastToRoom r (GameStarted (stage (roomObj ?w1 r)) (currentCard (roomObj ?w1 r)) (projection ?w1 r)) now ?w1"
    using assms by (simp add: startGame_def draw_nonempty Let_def)
  also have "\<dots> = w\<lparr>roomObj := (roomObj w)(r := (roomObj w r)
          \<lparr>deck := butlast (reset rnd), currentCard := Some (last (reset rnd)),
           stage := Some red_black, isGameStarted := True, lastActivity := now\<rparr>),
       outbox := outbox w @
          deliveries w r (GameStarted (Some red_black) (Some (last (reset rnd))) (projection w r))\<rparr>"
    unfolding broadcastToRoom_def Let_def d p
    by (rule world.equality) (auto simp add: modRoom_def intro!: Room.equality ext)
  finally show ?thesis .
qed

lemma startGame_started: "isGameStarted (roomObj w r) \<Longrightarrow> startGame r now rnd w = w"
  by (simp add: startGame_def)

lemma touch_eq: "modRoom r (\<lambda>R. R\<lparr>lastActivity := now\<rparr>) w
   = w\<lparr>roomObj := (roomObj w)(r := (roomObj w r)\<lparr>lastActivity := now\<rparr>)\<rparr>"
  by (simp add: modRoom_def)

subsection \<open>Scores and winners\<close>

lemma startGame_playerObj: "playerObj (startGame r now rnd w) = playerObj w"
  by (simp add: startGame_def broadcastToRoom_def modRoom_def Let_def split: prod.splits)

lemma onMessage_StartGame_playerObj: "playerObj (onMessage x StartGameMsg now rnd w) = playerObj w"
  by (simp add: onMessage_def roomMessage_def listMessage_def startGame_playerObj touch_fields
      split: option.splits handler.splits)

lemma spec_winners_Max:
  assumes "players (roomObj w r) \<noteq> []"
  shows "spec_winners w r =
     map (\<lambda>p. name (playerObj w p))
       (filter (\<lambda>p. score (playerObj w p) = Max ((\<lambda>q. score (playerObj w q)) ` set (players (roomObj w r))))
               (players (roomObj w r)))"
proof -
  let ?ps = "players (roomObj w r)"
  let ?S = "(\<lambda>q. score (playerObj w q)) ` set ?ps"
  have fin: "finite ?S" and ne: "?S \<noteq> {}" using assms by auto
  have "(\<forall>q \<in> set ?ps. score (playerObj w q) \<le> score (playerObj w p)) = (score (playerObj w p) = Max ?S)"
    if "p \<in> set ?ps" for p
  proof
    assume "\<forall>q \<in> set ?ps. score (playerObj w q) \<le> score (playerObj w p)"
    then have "Max ?S = score (playerObj w p)" using that by (intro Max_eqI) auto
    then show "score (playerObj w p) = Max ?S" by simp
  next
    assume "score (playerObj w p) = Max ?S"
    then show "\<forall>q \<in> set ?ps. score (playerObj w q) \<le> score (playerObj w p)"
      using fin by auto
  qed
  then have "filter (\<lambda>p. \<forall>q \<in> set ?ps. score (playerObj w q) \<le> score (playerObj w p)) ?ps
     = filter (\<lambda>p. score (playerObj w p) = Max ?S) ?ps"
    by (intro filter_cong) auto
  then show ?thesis by (simp add: spec_winners_def)
qed

subsection \<open>The score after a guess\<close>

lemma guess_playerObj:
  "playerObj (guess x r g now w) =
     (case currentCard (roomObj w r) of
        Some cur \<Rightarrow>
          if isGameStarted (roomObj w r) \<and> deck (roomObj w r) \<noteq> [] \<and>
             checkGuess g cur (last (deck (roomObj w r)))
          then (playerObj w)(x := (playerObj w x)\<lparr>score := score (playerObj w x) + 1\<rparr>)
          else playerObj w
      | None \<Rightarrow> playerObj w)"
proof (cases "currentCard (roomObj w r)")
  case None
  then show ?thesis by (simp add: guess_inactive send_def)
next
  case (Some cur)
  show ?thesis
  proof (cases "isGameStarted (roomObj w r)")
    case False
    then show ?thesis using Some by (simp add: guess_inactive send_def)
  next
    case True
    show ?thesis
    proof (cases "deck (roomObj w r) = []")
      case True
      with \<open>isGameStarted (roomObj w r)\<close> Some show ?thesis
        by (simp add: guess_empty_deck handleGameOver_eq spec_gameOver_def)
    next
      case False
      have "(playerObj w)(x := playerObj w x) = playerObj w" by simp
      with False True Some show ?thesis
        by (simp add: guess_active handleGameOver_eq spec_gameOver_def spec_guess_def Let_def)
    qed
  qed
qed

lemma guess_score_stage:
  "score (playerObj (guess x r g now (modRoom r' (\<lambda>R. R\<lparr>stage := st\<rparr>) w)) x)
     = score (playerObj (guess x r g now w) x)"
  by (simp add: guess_playerObj modRoom_def split: option.splits)

lemma modRoom_commute_touch:
  "modRoom r (\<lambda>R. R\<lparr>lastActivity := now\<rparr>) (modRoom r' (\<lambda>R. R\<lparr>stage := st\<rparr>) w)
   = modRoom r' (\<lambda>R. R\<lparr>stage := st\<rparr>) (modRoom r (\<lambda>R. R\<lparr>lastActivity := now\<rparr>) w)"
  by (cases "r = r'") (auto simp add: modRoom_def fun_upd_twist intro!: world.equality)

lemma onMessage_score_stage:
  "score (playerObj (onMessage x (GuessMsg g) now rnd (modRoom r' (\<lambda>R. R\<lparr>stage := st\<rparr>) w)) x)
     = score (playerObj (onMessage x (GuessMsg g) now rnd w) x)"
proof (cases "handlers w x")
  case None
  then show ?thesis by (simp add: onMessage_def touch_fields)
next
  case (Some h)
  then show ?thesis
    by (cases h)
       (simp_all add: onMessage_def listMessage_def roomMessage_def touch_fields
          modRoom_commute_touch guess_score_stage)
qed

subsection \<open>The invariant of waiting rooms\<close>

lemma all_ok_initial: "all_ok initial"
  by (simp add: all_ok_def room_ok_def initial_def blankRoom_def)

lemma all_ok_updates:
  "all_ok (w\<lparr>readyState := a\<rparr>) = all_ok w"
  "all_ok (w\<lparr>playerMap := b\<rparr>) = all_ok w"
  "all_ok (w\<lparr>connections := c\<rparr>) = all_ok w"
  "all_ok (w\<lparr>roomListConnections := d\<rparr>) = all_ok w"
  "all_ok (w\<lparr>handlers := e\<rparr>) = all_ok w"
  "all_ok (w\<lparr>nextWs := f\<rparr>) = all_ok w"
  "all_ok (w\<lparr>nextRoom := g\<rparr>) = all_ok w"
  "all_ok (w\<lparr>outbox := h\<rparr>) = all_ok w"
  "all_ok (w\<lparr>rooms := i\<rparr>) = all_ok w"
  "all_ok (w\<lparr>playerObj := j\<rparr>) = all_ok w"
  by (simp_all add: all_ok_def)

lemma all_ok_modRoom_neutral:
  assumes "\<And>R. room_ok (f R) = room_ok R"
  shows "all_ok (modRoom r f w) = all_ok w"
proof -
  have "room_ok (if r' = r then f (roomObj w r) else roomObj w r') = room_ok (roomObj w r')" for r'
    by (simp add: assms)
  then show ?thesis by (simp add: all_ok_def modRoom_def)
qed

lemma all_ok_neutral:
  "all_ok (modRoom r (\<lambda>R. R\<lparr>players := ps R\<rparr>) w) = all_ok w"
  "all_ok (modRoom r (\<lambda>R. R\<lparr>lastActivity := t\<rparr>) w) = all_ok w"
  "all_ok (modRoom r (\<lambda>R. R\<lparr>deck := d\<rparr>) w) = all_ok w"
  "all_ok (send x m w) = all_ok w"
  "all_ok (ws_close x c s w) = all_ok w"
  by (simp_all add: all_ok_modRoom_neutral room_ok_def send_def ws_close_def all_ok_updates)

lemma all_ok_broadcastToRoom: "all_ok (broadcastToRoom r m now w) = all_ok w"
  by (simp add: broadcastToRoom_def Let_def all_ok_updates all_ok_neutral)

lemma all_ok_sendRoomsList: "all_ok (sendRoomsList x w) = all_ok w"
  by (simp add: sendRoomsList_def all_ok_neutral)

lemma all_ok_handleGameOver: "all_ok w \<Longrightarrow> all_ok (handleGameOver r now w)"
  by (simp add: handleGameOver_eq spec_gameOver_def all_ok_def room_ok_def)

lemma all_ok_modRoom_start:
  "all_ok w \<Longrightarrow>
   all_ok (modRoom r (\<lambda>R. R\<lparr>isGameStarted := True, deck := d, stage := s, currentCard := c\<rparr>) w)"
  by (simp add: all_ok_def modRoom_def room_ok_def)

lemma all_ok_startGame: "all_ok w \<Longrightarrow> all_ok (startGame r now rnd w)"
  by (simp add: startGame_def Let_def all_ok_broadcastToRoom all_ok_modRoom_start split: prod.splits)

lemma all_ok_guess: assumes "all_ok w" shows "all_ok (guess x r g now w)"
proof (cases "isGameStarted (roomObj w r) \<and> currentCard (roomObj w r) \<noteq> None")
  case False
  then show ?thesis using assms by (auto simp add: guess_inactive all_ok_neutral)
next
  case True
  then obtain cur where cur: "currentCard (roomObj w r) = Some cur" by auto
  show ?thesis
  proof (cases "deck (roomObj w r) = []")
    case True
    then show ?thesis using \<open>isGameStarted (roomObj w r) \<and> currentCard (roomObj w r) \<noteq> None\<close> cur assms
      by (simp add: guess_empty_deck all_ok_handleGameOver)
  next
    case False
    have "all_ok (spec_guess x r g cur now w)"
      using assms True by (simp add: all_ok_def spec_guess_def Let_def room_ok_def)
    then show ?thesis using True cur False
      by (simp add: guess_active all_ok_handleGameOver)
  qed
qed

lemma all_ok_roomMessage: "all_ok w \<Longrightarrow> all_ok (roomMessage x r m now rnd w)"
  by (cases m)
     (simp_all add: roomMessage_def getState_def all_ok_neutral all_ok_startGame all_ok_guess)

lemma all_ok_listMessage: "all_ok w \<Longrightarrow> all_ok (listMessage x m w)"
  by (cases m) (simp_all add: listMessage_def all_ok_neutral all_ok_sendRoomsList)

lemma all_ok_onMessage: "all_ok w \<Longrightarrow> all_ok (onMessage x m now rnd w)"
  by (simp add: onMessage_def all_ok_listMessage all_ok_roomMessage split: option.splits handler.splits)

lemma all_ok_handlePlayerDisconnect: "all_ok w \<Longrightarrow> all_ok (handlePlayerDisconnect x now w)"
  unfolding handlePlayerDisconnect_def Let_def
  by (simp add: all_ok_updates all_ok_broadcastToRoom all_ok_neutral split: option.splits)

lemma all_ok_onClose: "all_ok w \<Longrightarrow> all_ok (onClose x now w)"
  unfolding onClose_def Let_def
  by (simp add: all_ok_updates all_ok_handlePlayerDisconnect split: option.splits handler.splits)

lemma all_ok_onError: "all_ok w \<Longrightarrow> all_ok (onError x now w)"
  unfolding onError_def
  by (simp add: all_ok_handlePlayerDisconnect split: option.splits handler.splits)

lemma all_ok_fold:
  assumes "\<And>p v. all_ok (f p v) = all_ok v"
  shows "all_ok (fold f ps w) = all_ok w"
  by (induction ps arbitrary: w) (simp_all add: assms)

lemma all_ok_cleanupRoom: "all_ok w \<Longrightarrow> all_ok (cleanupRoom now e w)"
  unfolding cleanupRoom_def Let_def
  by (cases e)
     (simp add: all_ok_updates all_ok_fold all_ok_neutral all_ok_broadcastToRoom)

lemma all_ok_fold_cleanupRoom: "all_ok w \<Longrightarrow> all_ok (fold (cleanupRoom now) es w)"
  by (induction es arbitrary: w) (simp_all add: all_ok_cleanupRoom)

lemma all_ok_cleanup: "all_ok w \<Longrightarrow> all_ok (cleanup now w)"
  by (simp add: cleanup_def all_ok_fold_cleanupRoom)

lemma all_ok_new_room:
  "all_ok w \<Longrightarrow> room_ok R \<Longrightarrow> all_ok (w\<lparr>roomObj := (roomObj w)(r := R)\<rparr>)"
  by (simp add: all_ok_def)

lemma all_ok_join: "all_ok w \<Longrightarrow> all_ok (join x i n now rnd w)"
proof -
  assume a: "all_ok w"
  let ?R = "\<lparr>room_id = i, players = [], deck = reset rnd, currentCard = None, stage = None,
             isGameStarted = False, createdAt = now, lastActivity = now, creator = n\<rparr>"
  have "all_ok (w\<lparr>roomObj := (roomObj w)(nextRoom w := ?R)\<rparr>)"
    using a by (rule all_ok_new_room) (simp add: room_ok_def)
  then have "all_ok (w\<lparr>connections := c, nextRoom := k, roomObj := (roomObj w)(nextRoom w := ?R)\<rparr>)" for c k
    by (simp add: all_ok_def)
  then show ?thesis
    unfolding join_def Let_def using a
    by (simp add: all_ok_updates all_ok_neutral all_ok_broadcastToRoom
        split: option.splits prod.splits)
qed

lemma all_ok_admit: "all_ok w \<Longrightarrow> all_ok (admit x i n now rnd w)"
  unfolding admit_def Let_def
  by (simp add: all_ok_updates all_ok_join all_ok_neutral split: option.splits)

lemma all_ok_onConnection: "all_ok w \<Longrightarrow> all_ok (onConnection a b now rnd w)"
  unfolding onConnection_def Let_def
  by (simp add: all_ok_updates all_ok_admit all_ok_neutral all_ok_sendRoomsList
      split: option.splits prod.splits)

lemma all_ok_step: "all_ok w \<Longrightarrow> all_ok (step e now rnd w)"
  by (cases e)
     (simp_all add: step_def all_ok_onConnection all_ok_onMessage all_ok_onClose all_ok_onError
        all_ok_cleanup all_ok_sendRoomsList all_ok_updates)

lemma reachable_all_ok: "reachable w \<Longrightarrow> all_ok w"
  by (induction rule: reachable.induct) (simp_all add: all_ok_initial all_ok_step)

subsection \<open>Registered sockets\<close>

lemma sockets_knownI:
  "(\<And>k e. connections w k = Some e \<Longrightarrow> e < nextWs w) \<Longrightarrow> sockets_known w"
  by (simp add: sockets_known_def)

lemma sockets_knownD: "sockets_known w \<Longrightarrow> connections w k = Some e \<Longrightarrow> e < nextWs w"
  by (simp add: sockets_known_def)

lemma sockets_known_shrink:
  assumes "sockets_known w" and "nextWs w' = nextWs w"
    and "\<And>k e. connections w' k = Some e \<Longrightarrow> connections w k = Some e"
  shows "sockets_known w'"
proof (rule sockets_knownI)
  fix k e
  assume "connections w' k = Some e"
  then have "connections w k = Some e" by (rule assms(3))
  with assms(1) have "e < nextWs w" by (rule sockets_knownD)
  then show "e < nextWs w'" by (simp add: assms(2))
qed

lemma frame_broadcastToRoom:
  "connections (broadcastToRoom r m now w) = connections w"
  "nextWs (broadcastToRoom r m now w) = nextWs w"
  by (simp_all add: broadcastToRoom_def modRoom_def Let_def)

lemma guess_branches:
  obtains (inactive) "guess x r g now w = send x (ErrorMsg GAME_NOT_ACTIVE ''Game is not active'') w"
  | (empty) "isGameStarted (roomObj w r)" "deck (roomObj w r) = []"
      "guess x r g now w = spec_gameOver r now w"
  | (evaluated) cur where "isGameStarted (roomObj w r)" "deck (roomObj w r) \<noteq> []"
      "getNextStage (stage (roomObj w r)) \<noteq> None"
      "guess x r g now w = spec_guess x r g cur now w"
  | (final) cur where "guess x r g now w = spec_gameOver r now (spec_guess x r g cur now w)"
proof (cases "isGameStarted (roomObj w r) \<and> currentCard (roomObj w r) \<noteq> None")
  case False
  then have "guess x r g now w = send x (ErrorMsg GAME_NOT_ACTIVE ''Game is not active'') w"
    by (intro guess_inactive) auto
  then show ?thesis by (rule inactive)
next
  case True
  then obtain cur where cur: "currentCard (roomObj w r) = Some cur" by auto
  from True have st: "isGameStarted (roomObj w r)" by simp
  show ?thesis
  proof (cases "deck (roomObj w r) = []")
    case True
    with st cur have "guess x r g now w = spec_gameOver r now w"
      by (simp add: guess_empty_deck handleGameOver_eq)
    with st True show ?thesis by (rule empty)
  next
    case False
    note g = guess_active [OF st cur False, of x g now]
    show ?thesis
    proof (cases "getNextStage (stage (roomObj w r)) = None")
      case True
      with g have "guess x r g now w = spec_gameOver r now (spec_guess x r g cur now w)"
        by (simp add: handleGameOver_eq)
      then show ?thesis by (rule final)
    next
      case n: False
      with g have "guess x r g now w = spec_guess x r g cur now w"
        by (simp only: if_False)
      with st False n show ?thesis by (rule evaluated)
    qed
  qed
qed

lemma frame_guess:
  "connections (guess x r g now w) = connections w"
  "nextWs (guess x r g now w) = nextWs w"
  by (rule guess_branches [of x r g now w];
      simp add: send_def spec_gameOver_def spec_guess_def Let_def)+

lemma frame_startGame:
  "connections (startGame r now rnd w) = connections w"
  "nextWs (startGame r now rnd w) = nextWs w"
  by (simp_all add: startGame_def frame_broadcastToRoom modRoom_def Let_def split: prod.splits)

lemma frame_roomMessage:
  "connections (roomMessage x r m now rnd w) = connections w"
  "nextWs (roomMessage x r m now rnd w) = nextWs w"
  by (cases m; simp add: roomMessage_def frame_guess frame_startGame getState_def send_def modRoom_def)+

lemma frame_listMessage:
  "connections (listMessage x m w) = connections w"
  "nextWs (listMessage x m w) = nextWs w"
  by (simp_all add: listMessage_def sendRoomsList_def send_def split: in_msg.splits)

lemma frame_onMessage:
  "connections (onMessage x m now rnd w) = connections w"
  "nextWs (onMessage x m now rnd w) = nextWs w"
  by (simp_all add: onMessage_def frame_roomMessage frame_listMessage
      split: option.splits handler.splits)

lemma sockets_known_onMessage: "sockets_known w \<Longrightarrow> sockets_known (onMessage x m now rnd w)"
  by (erule sockets_known_shrink) (simp_all add: frame_onMessage)

lemma sockets_known_handlePlayerDisconnect:
  assumes "sockets_known w" shows "sockets_known (handlePlayerDisconnect x now w)"
  using assms
proof (rule sockets_known_shrink)
  show "nextWs (handlePlayerDisconnect x now w) = nextWs w"
    by (simp add: handlePlayerDisconnect_def Let_def frame_broadcastToRoom modRoom_def
        split: option.splits)
  show "connections w k = Some e" if "connections (handlePlayerDisconnect x now w) k = Some e" for k e
    using that
    by (simp add: handlePlayerDisconnect_def Let_def frame_broadcastToRoom modRoom_def
        split: option.splits if_splits)
qed

lemma sockets_known_onClose: "sockets_known w \<Longrightarrow> sockets_known (onClose x now w)"
proof -
  assume a: "sockets_known w"
  have "sockets_known (w\<lparr>readyState := s\<rparr>)" for s
    using a by (simp add: sockets_known_def)
  then show ?thesis
    by (simp add: onClose_def Let_def sockets_known_handlePlayerDisconnect
        split: option.splits handler.splits) (simp add: sockets_known_def)
qed

lemma sockets_known_onError: "sockets_known w \<Longrightarrow> sockets_known (onError x now w)"
  by (simp add: onError_def sockets_known_handlePlayerDisconnect split: option.splits handler.splits)

lemma frame_fold_close:
  "connections (fold (\<lambda>p. ws_close (f p) c t) ps w) = connections w"
  "nextWs (fold (\<lambda>p. ws_close (f p) c t) ps w) = nextWs w"
  by (induction ps arbitrary: w) (simp_all add: ws_close_def)

lemma frame_fold_unregister_nextWs:
  "nextWs (fold (\<lambda>p v. v\<lparr>playerMap := (playerMap v)(a v p := None),
                          connections := (connections v)(b v p := None)\<rparr>) ps w) = nextWs w"
  by (induction ps arbitrary: w) simp_all

lemma frame_fold_unregister:
  "connections (fold (\<lambda>p v. v\<lparr>playerMap := (playerMap v)(a v p := None),
                          connections := (connections v)(b v p := None)\<rparr>) ps w) k = Some e
     \<Longrightarrow> connections w k = Some e"
proof (induction ps arbitrary: w)
  case Nil
  then show ?case by simp
next
  case (Cons p ps)
  let ?v = "w\<lparr>playerMap := (playerMap w)(a w p := None),
             connections := (connections w)(b w p := None)\<rparr>"
  from Cons.prems have "connections (fold (\<lambda>p v. v\<lparr>playerMap := (playerMap v)(a v p := None),
                          connections := (connections v)(b v p := None)\<rparr>) ps ?v) k = Some e"
    by (simp only: fold_simps o_apply)
  then have "connections ?v k = Some e"
    by (rule Cons.IH)
  then show ?case by (simp split: if_splits)
qed

lemma sockets_known_cleanupRoom:
  assumes "sockets_known w" shows "sockets_known (cleanupRoom now en w)"
proof (cases "now - lastActivity (roomObj w (snd en)) > ROOM_TIMEOUT")
  case False
  then have "cleanupRoom now en w = w"
    by (cases en) (simp add: cleanupRoom_def)
  with assms show ?thesis by simp
next
  case True
  obtain i r where en: "en = (i, r)" by (cases en)
  let ?w1 = "broadcastToRoom r (RoomClosed ''Room closed due to inactivity'') now w"
  let ?ps = "players (roomObj ?w1 r)"
  let ?w2 = "fold (\<lambda>p. ws_close (ws (playerObj ?w1 p)) INVALID_ROOM ''Room closed due to inactivity'') ?ps ?w1"
  let ?w3 = "fold (\<lambda>p v. v\<lparr>playerMap := (playerMap v)(ws (playerObj v p) := None),
                                   connections := (connections v)
                                      (roomId (playerObj v p) @ '':'' @ name (playerObj v p) := None)\<rparr>) ?ps ?w2"
  have eq: "cleanupRoom now en w = ?w3\<lparr>rooms := AList.delete i (rooms ?w3)\<rparr>"
    using True unfolding en cleanupRoom_def Let_def by simp
  show ?thesis
    using assms
  proof (rule sockets_known_shrink)
    show "nextWs (cleanupRoom now en w) = nextWs w"
      unfolding eq
      by (simp add: frame_fold_unregister_nextWs frame_fold_close frame_broadcastToRoom)
    show "connections w k = Some e" if "connections (cleanupRoom now en w) k = Some e" for k e
    proof -
      from that have "connections ?w3 k = Some e" unfolding eq by simp
      then have "connections ?w2 k = Some e" by (rule frame_fold_unregister)
      then show ?thesis by (simp add: frame_fold_close frame_broadcastToRoom)
    qed
  qed
qed

lemma sockets_known_cleanup: "sockets_known w \<Longrightarrow> sockets_known (cleanup now w)"
proof -
  have "sockets_known w \<Longrightarrow> sockets_known (fold (cleanupRoom now) es w)" for es
    by (induction es arbitrary: w) (simp_all add: sockets_known_cleanupRoom)
  then show "sockets_known w \<Longrightarrow> sockets_known (cleanup now w)"
    by (simp add: cleanup_def)
qed

lemma frame_join:
  "nextWs (join x i n now rnd w) = nextWs w"
  "connections (join x i n now rnd w) = (connections w)(i @ '':'' @ n \<mapsto> x)"
proof -
  have "nextWs (join x i n now rnd w) = nextWs w \<and>
        connections (join x i n now rnd w) = (connections w)(i @ '':'' @ n \<mapsto> x)"
  proof (cases "map_of (rooms w) i")
    case None
    then show ?thesis
      by (simp add: join_def Let_def frame_broadcastToRoom modRoom_def send_def)
  next
    case (Some r)
    then show ?thesis
      by (simp add: join_def Let_def frame_broadcastToRoom modRoom_def send_def)
  qed
  then show "nextWs (join x i n now rnd w) = nextWs w"
    and "connections (join x i n now rnd w) = (connections w)(i @ '':'' @ n \<mapsto> x)"
    by simp_all
qed

lemma frame_admit:
  "nextWs (admit x i n now rnd w) = nextWs w"
  "connections (admit x i n now rnd w) k = Some e \<Longrightarrow> e = x \<or> connections w k = Some e"
proof -
  show "nextWs (admit x i n now rnd w) = nextWs w"
    by (simp add: admit_def Let_def frame_join ws_close_def split: option.splits)
  assume c: "connections (admit x i n now rnd w) k = Some e"
  show "e = x \<or> connections w k = Some e"
  proof (cases "connections w (i @ '':'' @ n)")
    case None
    with c show ?thesis by (simp add: admit_def frame_join split: if_splits)
  next
    case (Some old)
    show ?thesis
    proof (cases "readyState w old = OPEN")
      case True
      with c Some show ?thesis by (simp add: admit_def ws_close_def)
    next
      case False
      with c Some show ?thesis
        by (cases "readyState w old = CLOSED")
           (simp_all add: admit_def Let_def frame_join ws_close_def split: if_splits)
    qed
  qed
qed

lemma sockets_known_onConnection:
  assumes "sockets_known w" shows "sockets_known (onConnection a b now rnd w)"
proof (rule sockets_knownI)
  fix k e
  let ?w0 = "w\<lparr>nextWs := Suc (nextWs w), readyState := (readyState w)(nextWs w := OPEN)\<rparr>"
  let ?w' = "onConnection a b now rnd w"
  assume c: "connections ?w' k = Some e"
  have n: "nextWs ?w' = Suc (nextWs w)"
    by (simp add: onConnection_def Let_def frame_admit ws_close_def sendRoomsList_def send_def
        split: option.splits)
  have "e = nextWs w \<or> connections w k = Some e"
  proof (cases "truthy a")
    case None
    with c show ?thesis
      by (simp add: onConnection_def Let_def ws_close_def sendRoomsList_def send_def
          split: option.splits if_splits)
  next
    case (Some i)
    show ?thesis
    proof (cases "truthy b")
      case None
      with c Some show ?thesis
        by (simp add: onConnection_def Let_def ws_close_def)
    next
      case (Some n)
      with c \<open>truthy a = Some i\<close>
      have "connections (admit (nextWs w) i n now rnd ?w0) k = Some e"
        by (simp add: onConnection_def Let_def)
      from frame_admit(2) [OF this] show ?thesis by simp
    qed
  qed
  then show "e < nextWs ?w'"
    using n sockets_knownD [OF assms, of k e] by auto
qed

lemma sockets_known_step: "sockets_known w \<Longrightarrow> sockets_known (step e now rnd w)"
proof (cases e)
  case (Closing x)
  assume "sockets_known w"
  then show ?thesis using Closing by (simp add: step_def sockets_known_def)
next
  case (RoomListTick x)
  assume "sockets_known w"
  then show ?thesis using RoomListTick
    by (simp add: step_def sendRoomsList_def send_def sockets_known_def)
qed (simp_all add: step_def sockets_known_onConnection sockets_known_onMessage
      sockets_known_onClose sockets_known_onError sockets_known_cleanup)

lemma reachable_sockets_known: "reachable w \<Longrightarrow> sockets_known w"
proof (induction rule: reachable.induct)
  case reachable_initial
  show ?case by (simp add: sockets_known_def initial_def)
next
  case (reachable_step w rnd e now)
  then show ?case by (simp add: sockets_known_step)
qed

subsection \<open>Started rooms hold cards\<close>

lemma all_dealt_initial: "all_dealt initial"
  by (simp add: all_dealt_def room_dealt_def initial_def blankRoom_def)

lemma all_dealt_updates:
  "all_dealt (w\<lparr>readyState := a\<rparr>) = all_dealt w"
  "all_dealt (w\<lparr>playerMap := b\<rparr>) = all_dealt w"
  "all_dealt (w\<lparr>connections := c\<rparr>) = all_dealt w"
  "all_dealt (w\<lparr>roomListConnections := d\<rparr>) = all_dealt w"
  "all_dealt (w\<lparr>handlers := e\<rparr>) = all_dealt w"
  "all_dealt (w\<lparr>nextWs := f\<rparr>) = all_dealt w"
  "all_dealt (w\<lparr>nextRoom := g\<rparr>) = all_dealt w"
  "all_dealt (w\<lparr>outbox := h\<rparr>) = all_dealt w"
  "all_dealt (w\<lparr>rooms := i\<rparr>) = all_dealt w"
  "all_dealt (w\<lparr>playerObj := j\<rparr>) = all_dealt w"
  by (simp_all add: all_dealt_def)

lemma all_dealt_modRoom_neutral:
  assumes "\<And>R. room_dealt (f R) = room_dealt R"
  shows "all_dealt (modRoom r f w) = all_dealt w"
proof -
  have "room_dealt (if r' = r then f (roomObj w r) else roomObj w r') = room_dealt (roomObj w r')" for r'
    by (simp add: assms)
  then show ?thesis by (simp add: all_dealt_def modRoom_def)
qed

lemma all_dealt_neutral:
  "all_dealt (modRoom r (\<lambda>R. R\<lparr>players := ps R\<rparr>) w) = all_dealt w"
  "all_dealt (modRoom r (\<lambda>R. R\<lparr>lastActivity := t\<rparr>) w) = all_dealt w"
  "all_dealt (send x m w) = all_dealt w"
  "all_dealt (ws_close x c s w) = all_dealt w"
  by (simp_all add: all_dealt_modRoom_neutral room_dealt_def send_def ws_close_def all_dealt_updates)

lemma all_dealt_broadcastToRoom: "all_dealt (broadcastToRoom r m now w) = all_dealt w"
  by (simp add: broadcastToRoom_def Let_def all_dealt_updates all_dealt_neutral)

lemma all_dealt_sendRoomsList: "all_dealt (sendRoomsList x w) = all_dealt w"
  by (simp add: sendRoomsList_def all_dealt_neutral)

lemma all_dealt_spec_gameOver: "all_dealt w \<Longrightarrow> all_dealt (spec_gameOver r now w)"
  by (simp add: spec_gameOver_def all_dealt_def room_dealt_def)

lemma all_dealt_spec_gameOver_after:
  assumes "\<And>r'. r' \<noteq> r \<Longrightarrow> room_dealt (roomObj v r')"
  shows "all_dealt (spec_gameOver r now v)"
  using assms by (simp add: spec_gameOver_def all_dealt_def room_dealt_def)

lemma all_dealt_startGame:
  assumes "all_dealt w" and "unit_interval rnd"
  shows "all_dealt (startGame r now rnd w)"
proof (cases "isGameStarted (roomObj w r)")
  case True
  with assms(1) show ?thesis by (simp add: startGame_started)
next
  case False
  have l: "length (butlast (reset rnd)) = 51" using assms(2) by (simp add: length_reset)
  show ?thesis
    unfolding startGame_waiting [OF False reset_nonempty [OF assms(2)]]
    using assms(1) l by (simp add: all_dealt_def room_dealt_def)
qed

lemma stage_index_next:
  "getNextStage (Some st) \<noteq> None \<Longrightarrow>
   \<exists>st'. getNextStage (Some st) = Some st' \<and> stage_index st' = Suc (stage_index st)"
  by (cases st) simp_all

lemma all_dealt_guess:
  assumes "all_dealt w" shows "all_dealt (guess x r g now w)"
proof (cases rule: guess_branches [of x r g now w])
  case inactive
  with assms show ?thesis by (simp add: all_dealt_neutral)
next
  case empty
  with assms show ?thesis by (simp add: all_dealt_spec_gameOver)
next
  case (evaluated cur)
  from assms have d: "room_dealt (roomObj w r)" by (simp add: all_dealt_def)
  with evaluated(1) obtain st where st: "stage (roomObj w r) = Some st"
    "length (deck (roomObj w r)) + stage_index st = 51"
    by (auto simp add: room_dealt_def)
  from evaluated(3) st(1) obtain st' where st': "getNextStage (Some st) = Some st'"
    "stage_index st' = Suc (stage_index st)"
    using stage_index_next [of st] by auto
  obtain k where k: "length (deck (roomObj w r)) = Suc k"
    using evaluated(2) by (cases "deck (roomObj w r)") simp_all
  then have "length (butlast (deck (roomObj w r))) = k" by simp
  then have len: "length (butlast (deck (roomObj w r))) + stage_index st' = 51"
    using st(2) st'(2) k by arith
  have "room_dealt (roomObj (spec_guess x r g cur now w) r)"
    using evaluated(1) st(1) st'(1) len by (simp add: spec_guess_def Let_def room_dealt_def)
  moreover have "roomObj (spec_guess x r g cur now w) r' = roomObj w r'" if "r' \<noteq> r" for r'
    using that by (simp add: spec_guess_def Let_def)
  ultimately have "all_dealt (spec_guess x r g cur now w)"
    using assms unfolding all_dealt_def by metis
  with evaluated(4) show ?thesis by simp
next
  case (final cur)
  have "room_dealt (roomObj (spec_guess x r g cur now w) r')" if "r' \<noteq> r" for r'
    using that assms by (simp add: spec_guess_def Let_def all_dealt_def)
  then have "all_dealt (spec_gameOver r now (spec_guess x r g cur now w))"
    by (rule all_dealt_spec_gameOver_after)
  with final show ?thesis by simp
qed

lemma all_dealt_roomMessage:
  "all_dealt w \<Longrightarrow> unit_interval rnd \<Longrightarrow> all_dealt (roomMessage x r m now rnd w)"
  by (cases m)
     (simp_all add: roomMessage_def getState_def all_dealt_neutral all_dealt_startGame all_dealt_guess)

lemma all_dealt_listMessage: "all_dealt w \<Longrightarrow> all_dealt (listMessage x m w)"
  by (cases m) (simp_all add: listMessage_def all_dealt_neutral all_dealt_sendRoomsList)

lemma all_dealt_onMessage:
  "all_dealt w \<Longrightarrow> unit_interval rnd \<Longrightarrow> all_dealt (onMessage x m now rnd w)"
  by (simp add: onMessage_def all_dealt_listMessage all_dealt_roomMessage
      split: option.splits handler.splits)

lemma all_dealt_handlePlayerDisconnect: "all_dealt w \<Longrightarrow> all_dealt (handlePlayerDisconnect x now w)"
  unfolding handlePlayerDisconnect_def Let_def
  by (simp add: all_dealt_updates all_dealt_broadcastToRoom all_dealt_neutral split: option.splits)

lemma all_dealt_onClose: "all_dealt w \<Longrightarrow> all_dealt (onClose x now w)"
  unfolding onClose_def Let_def
  by (simp add: all_dealt_updates all_dealt_handlePlayerDisconnect split: option.splits handler.splits)

lemma all_dealt_onError: "all_dealt w \<Longrightarrow> all_dealt (onError x now w)"
  unfolding onError_def
  by (simp add: all_dealt_handlePlayerDisconnect split: option.splits handler.splits)

lemma all_dealt_fold:
  assumes "\<And>p v. all_dealt (f p v) = all_dealt v"
  shows "all_dealt (fold f ps w) = all_dealt w"
  by (induction ps arbitrary: w) (simp_all add: assms)

lemma all_dealt_cleanupRoom: "all_dealt w \<Longrightarrow> all_dealt (cleanupRoom now e w)"
  unfolding cleanupRoom_def Let_def
  by (cases e)
     (simp add: all_dealt_updates all_dealt_fold all_dealt_neutral all_dealt_broadcastToRoom)

lemma all_dealt_cleanup: "all_dealt w \<Longrightarrow> all_dealt (cleanup now w)"
proof -
  have "all_dealt w \<Longrightarrow> all_dealt (fold (cleanupRoom now) es w)" for es
    by (induction es arbitrary: w) (simp_all add: all_dealt_cleanupRoom)
  then show "all_dealt w \<Longrightarrow> all_dealt (cleanup now w)"
    by (simp add: cleanup_def)
qed

lemma all_dealt_join: "all_dealt w \<Longrightarrow> all_dealt (join x i n now rnd w)"
proof -
  assume a: "all_dealt w"
  let ?R = "\<lparr>room_id = i, players = [], deck = reset rnd, currentCard = None, stage = None,
             isGameStarted = False, createdAt = now, lastActivity = now, creator = n\<rparr>"
  have "all_dealt (w\<lparr>connections := c, nextRoom := k, roomObj := (roomObj w)(nextRoom w := ?R)\<rparr>)" for c k
    using a by (simp add: all_dealt_def room_dealt_def)
  then show ?thesis
    using a
    by (cases "map_of (rooms w) i")
       (simp_all add: join_def Let_def all_dealt_updates all_dealt_neutral all_dealt_broadcastToRoom)
qed

lemma all_dealt_admit: "all_dealt w \<Longrightarrow> all_dealt (admit x i n now rnd w)"
  unfolding admit_def Let_def
  by (simp add: all_dealt_updates all_dealt_join all_dealt_neutral split: option.splits)

lemma all_dealt_onConnection: "all_dealt w \<Longrightarrow> all_dealt (onConnection a b now rnd w)"
  unfolding onConnection_def Let_def
  by (simp add: all_dealt_updates all_dealt_admit all_dealt_neutral all_dealt_sendRoomsList
      split: option.splits prod.splits)

lemma all_dealt_step: "all_dealt w \<Longrightarrow> unit_interval rnd \<Longrightarrow> all_dealt (step e now rnd w)"
  by (cases e)
     (simp_all add: step_def all_dealt_onConnection all_dealt_onMessage all_dealt_onClose
        all_dealt_onError all_dealt_cleanup all_dealt_sendRoomsList all_dealt_updates)

lemma reachable_all_dealt: "reachable w \<Longrightarrow> all_dealt w"
  by (induction rule: reachable.induct) (simp_all add: all_dealt_initial all_dealt_step)

lemma started_room_has_cards:
  assumes "reachable w" and "isGameStarted (roomObj w r)"
  shows "currentCard (roomObj w r) \<noteq> None \<and> stage (roomObj w r) \<noteq> None \<and>
         48 \<le> length (deck (roomObj w r))"
proof -
  from reachable_all_dealt [OF assms(1)] have "room_dealt (roomObj w r)"
    by (simp add: all_dealt_def)
  with assms(2) obtain st where "currentCard (roomObj w r) \<noteq> None" "stage (roomObj w r) = Some st"
    "length (deck (roomObj w r)) + stage_index st = 51"
    by (auto simp add: room_dealt_def)
  moreover have "stage_index st \<le> 3" by (cases st) simp_all
  ultimately show ?thesis by simp
qed

subsection \<open>The messages of a round\<close>

lemma spec_guess_fields:
  "isGameStarted (roomObj (spec_guess x r g cur now w) r) = isGameStarted (roomObj w r)"
  "currentCard (roomObj (spec_guess x r g cur now w) r) = Some (last (deck (roomObj w r)))"
  "stage (roomObj (spec_guess x r g cur now w) r) = getNextStage (stage (roomObj w r))"
  "deck (roomObj (spec_guess x r g cur now w) r) = butlast (deck (roomObj w r))"
  "handlers (spec_guess x r g cur now w) = handlers w"
  "score (playerObj w p) \<le> score (playerObj (spec_guess x r g cur now w) p)"
  by (simp_all add: spec_guess_def Let_def)

lemma spec_gameOver_fields:
  "isGameStarted (roomObj (spec_gameOver r now w) r) = False"
  "currentCard (roomObj (spec_gameOver r now w) r) = None"
  "stage (roomObj (spec_gameOver r now w) r) = None"
  "handlers (spec_gameOver r now w) = handlers w"
  "playerObj (spec_gameOver r now w) = playerObj w"
  by (simp_all add: spec_gameOver_def)

lemma onMessage_guess_active:
  assumes "handlers w x = Some (RoomHandler r)"
    and "isGameStarted (roomObj w r)"
    and "currentCard (roomObj w r) = Some cur"
    and "deck (roomObj w r) \<noteq> []"
  shows "onMessage x (GuessMsg g) now rnd w =
           (if getNextStage (stage (roomObj w r)) = None
            then handleGameOver r now (spec_guess x r g cur now w)
            else spec_guess x r g cur now w)"
  using assms
  by (simp add: onMessage_def roomMessage_def guess_active touch_fields spec_guess_touch)

lemma guess_advances:
  assumes "handlers w x = Some (RoomHandler r)"
    and "isGameStarted (roomObj w r)"
    and "currentCard (roomObj w r) \<noteq> None"
    and "length (deck (roomObj w r)) = Suc k"
    and "stage (roomObj w r) = Some st"
    and "getNextStage (Some st) = Some st'"
  shows "isGameStarted (roomObj (onMessage x (GuessMsg g) now rnd w) r) \<and>
         currentCard (roomObj (onMessage x (GuessMsg g) now rnd w) r) \<noteq> None \<and>
         length (deck (roomObj (onMessage x (GuessMsg g) now rnd w) r)) = k \<and>
         stage (roomObj (onMessage x (GuessMsg g) now rnd w) r) = Some st' \<and>
         handlers (onMessage x (GuessMsg g) now rnd w) = handlers w \<and>
         (\<forall>p. score (playerObj w p) \<le> score (playerObj (onMessage x (GuessMsg g) now rnd w) p))"
proof -
  obtain cur where cur: "currentCard (roomObj w r) = Some cur" using assms(3) by auto
  have ne: "deck (roomObj w r) \<noteq> []" using assms(4) by auto
  have "onMessage x (GuessMsg g) now rnd w = spec_guess x r g cur now w"
    using onMessage_guess_active [OF assms(1,2) cur ne, of g now rnd] assms(5,6) by simp
  then show ?thesis using assms by (simp add: spec_guess_fields)
qed

lemma guess_finishes:
  assumes "handlers w x = Some (RoomHandler r)"
    and "isGameStarted (roomObj w r)"
    and "currentCard (roomObj w r) \<noteq> None"
    and "length (deck (roomObj w r)) = Suc k"
    and "stage (roomObj w r) = Some suit_stage"
  shows "\<not> isGameStarted (roomObj (onMessage x (GuessMsg g) now rnd w) r) \<and>
         currentCard (roomObj (onMessage x (GuessMsg g) now rnd w) r) = None \<and>
         stage (roomObj (onMessage x (GuessMsg g) now rnd w) r) = None \<and>
         handlers (onMessage x (GuessMsg g) now rnd w) = handlers w \<and>
         (\<forall>p. score (playerObj w p) \<le> score (playerObj (onMessage x (GuessMsg g) now rnd w) p))"
proof -
  obtain cur where cur: "currentCard (roomObj w r) = Some cur" using assms(3) by auto
  have ne: "deck (roomObj w r) \<noteq> []" using assms(4) by auto
  have "onMessage x (GuessMsg g) now rnd w = spec_gameOver r now (spec_guess x r g cur now w)"
    using onMessage_guess_active [OF assms(1,2) cur ne, of g now rnd] assms(5)
    by (simp add: handleGameOver_eq)
  then show ?thesis using assms by (simp add: spec_gameOver_fields spec_guess_fields)
qed

lemma startGame_begins:
  assumes "handlers w x = Some (RoomHandler r)"
    and "unit_interval rnd"
    and "\<not> isGameStarted (roomObj w r)"
  shows "isGameStarted (roomObj (onMessage x StartGameMsg now rnd w) r) \<and>
         currentCard (roomObj (onMessage x StartGameMsg now rnd w) r) \<noteq> None \<and>
         length (deck (roomObj (onMessage x StartGameMsg now rnd w) r)) = 51 \<and>
         stage (roomObj (onMessage x StartGameMsg now rnd w) r) = Some red_black \<and>
         handlers (onMessage x StartGameMsg now rnd w) = handlers w \<and>
         playerObj (onMessage x StartGameMsg now rnd w) = playerObj w"
proof -
  let ?t = "modRoom r (\<lambda>R. R\<lparr>lastActivity := now\<rparr>) w"
  have ne: "reset rnd \<noteq> []" using assms(2) by (rule reset_nonempty)
  have n: "\<not> isGameStarted (roomObj ?t r)" using assms(3) by (simp add: touch_fields)
  have l: "length (butlast (reset rnd)) = 51" using assms(2) by (simp add: length_reset)
  have "onMessage x StartGameMsg now rnd w = startGame r now rnd ?t"
    using assms(1) by (simp add: onMessage_def roomMessage_def)
  then show ?thesis
    unfolding startGame_waiting [OF n ne]
    using l assms(1) by (simp add: touch_fields)
qed

subsection \<open>The example runs, evaluated\<close>

lemma unit_interval_rnd0: "unit_interval rnd0"
  by (simp add: unit_interval_def rnd0_def)

lemma reset_rnd0:
  "length (reset rnd0) = 52 \<and> last (reset rnd0) = \<lparr>suit = hearts, cvalue = 1\<rparr> \<and>
   last (butlast (reset rnd0)) = \<lparr>suit = spades, cvalue = 13\<rparr>"
  unfolding rnd0_def by code_simp

lemma reset_rnd0_nonempty: "reset rnd0 \<noteq> []" "butlast (reset rnd0) \<noteq> []"
  using reset_rnd0 by (auto simp flip: length_0_conv)

lemma lobby_eq: "lobby =
  \<lparr>roomObj = (\<lambda>_. blankRoom)
        (0 := \<lparr>room_id = ''ABC123'', players = [0, 1], deck = reset rnd0,
                 currentCard = None, stage = None, isGameStarted = False,
                 createdAt = 10, lastActivity = 20, creator = ''Alice''\<rparr>),
   playerObj = (\<lambda>_. blankPlayer)
        (0 := \<lparr>name = ''Alice'', score = 0, ws = 0, roomId = ''ABC123'', connectionTime = 10\<rparr>,
         1 := \<lparr>name = ''Bob'', score = 0, ws = 1, roomId = ''ABC123'', connectionTime = 20\<rparr>),
   rooms = [(''ABC123'', 0)], playerMap = [0 \<mapsto> 0, 1 \<mapsto> 1],
   connections = [''ABC123:Alice'' \<mapsto> 0, ''ABC123:Bob'' \<mapsto> 1],
   roomListConnections = {},
   handlers = [0 \<mapsto> RoomHandler 0, 1 \<mapsto> RoomHandler 0],
   readyState = (\<lambda>_. CONNECTING)(0 := OPEN, 1 := OPEN),
   nextWs = 2, nextRoom = 1,
   outbox =
     [Send 0 (PlayerJoined ''Alice'' [(''Alice'', 0)]),
      Send 0 (PlayerJoined ''Bob'' [(''Alice'', 0), (''Bob'', 0)]),
      Send 1 (PlayerJoined ''Bob'' [(''Alice'', 0), (''Bob'', 0)])]\<rparr>"
  by (simp add: lobby_def step_def onConnection_def admit_def join_def initial_def Let_def
     modRoom_def broadcastToRoom_def send_def deliveries_def projection_def numeral_2_eq_2)

lemma started_eq: "started =
  \<lparr>roomObj = (\<lambda>_. blankRoom)
        (0 := \<lparr>room_id = ''ABC123'', players = [0, 1], deck = butlast (reset rnd0),
                 currentCard = Some \<lparr>suit = hearts, cvalue = 1\<rparr>,
                 stage = Some red_black, isGameStarted = True,
                 createdAt = 10, lastActivity = 30, creator = ''Alice''\<rparr>),
   playerObj = (\<lambda>_. blankPlayer)
        (0 := \<lparr>name = ''Alice'', score = 0, ws = 0, roomId = ''ABC123'', connectionTime = 10\<rparr>,
         1 := \<lparr>name = ''Bob'', score = 0, ws = 1, roomId = ''ABC123'', connectionTime = 20\<rparr>),
   rooms = [(''ABC123'', 0)], playerMap = [0 \<mapsto> 0, 1 \<mapsto> 1],
   connections = [''ABC123:Alice'' \<mapsto> 0, ''ABC123:Bob'' \<mapsto> 1],
   roomListConnections = {},
   handlers = [0 \<mapsto> RoomHandler 0, 1 \<mapsto> RoomHandler 0],
   readyState = (\<lambda>_. CONNECTING)(0 := OPEN, 1 := OPEN),
   nextWs = 2, nextRoom = 1,
   outbox =
     [Send 0 (PlayerJoined ''Alice'' [(''Alice'', 0)]),
      Send 0 (PlayerJoined ''Bob'' [(''Alice'', 0), (''Bob'', 0)]),
      Send 1 (PlayerJoined ''Bob'' [(''Alice'', 0), (''Bob'', 0)]),
      Send 0 (GameStarted (Some red_black) (Some \<lparr>suit = hearts, cvalue = 1\<rparr>)
                [(''Alice'', 0), (''Bob'', 0)]),
      Send 1 (GameStarted (Some red_black) (Some \<lparr>suit = hearts, cvalue = 1\<rparr>)
                [(''Alice'', 0), (''Bob'', 0)])]\<rparr>"
  by (simp add: started_def lobby_eq step_def onMessage_def roomMessage_def startGame_def Let_def
     modRoom_def broadcastToRoom_def send_def deliveries_def projection_def draw_nonempty
     reset_rnd0_nonempty reset_rnd0)

lemma started_facts:
  "handlers started 0 = Some (RoomHandler 0)"
  "handlers started 1 = Some (RoomHandler 0)"
  "isGameStarted (roomObj started 0)"
  "currentCard (roomObj started 0) = Some \<lparr>suit = hearts, cvalue = 1\<rparr>"
  "stage (roomObj started 0) = Some red_black"
  "deck (roomObj started 0) = butlast (reset rnd0)"
  "players (roomObj started 0) = [0, 1]"
  "score (playerObj started 0) = 0"
  "score (playerObj started 1) = 0"
  "name (playerObj started 0) = ''Alice''"
  "name (playerObj started 1) = ''Bob''"
  "deliveries started 0 m = [Send 0 m, Send 1 m]"
  by (simp_all add: started_eq deliveries_def)

lemma drained_facts:
  "handlers drained 0 = Some (RoomHandler 0)"
  "isGameStarted (roomObj drained 0)"
  "currentCard (roomObj drained 0) = Some \<lparr>suit = hearts, cvalue = 1\<rparr>"
  "deck (roomObj drained 0) = []"
  "outbox drained = outbox started"
  "playerObj drained = playerObj started"
  "deliveries drained 0 m = [Send 0 m, Send 1 m]"
  "spec_winners drained 0 = [''Alice'', ''Bob'']"
  "projection drained 0 = [(''Alice'', 0), (''Bob'', 0)]"
  by (simp_all add: drained_def modRoom_def started_eq deliveries_def spec_winners_def projection_def)

section \<open>Guess evaluation\<close>

text \<open>
  Claim C1, as the code has it. \<open>checkGuess\<close> follows the table: \<open>red\<close> is correct iff the
  next card is a heart or a diamond, \<open>black\<close> iff it is a club or a spade, \<open>higher\<close> iff
  its value is greater than the value of the previous card, \<open>lower\<close> iff it is less,
  \<open>inside\<close> iff the values differ by at most 3, \<open>outside\<close> iff they differ by more than 3,
  and the name of a suit iff it is the suit of the next card. With equal values both
  \<open>higher\<close> and \<open>lower\<close> are incorrect.
\<close>

theorem checkGuess_table:
  "(checkGuess ''red'' p n \<longleftrightarrow> suit n = hearts \<or> suit n = diamonds) \<and>
   (checkGuess ''black'' p n \<longleftrightarrow> suit n = clubs \<or> suit n = spades) \<and>
   (checkGuess ''higher'' p n \<longleftrightarrow> cvalue n > cvalue p) \<and>
   (checkGuess ''lower'' p n \<longleftrightarrow> cvalue n < cvalue p) \<and>
   (checkGuess ''inside'' p n \<longleftrightarrow> \<bar>cvalue n - cvalue p\<bar> \<le> 3) \<and>
   (checkGuess ''outside'' p n \<longleftrightarrow> \<bar>cvalue n - cvalue p\<bar> > 3) \<and>
   (checkGuess (suit_str s) p n \<longleftrightarrow> suit n = s) \<and>
   (cvalue n = cvalue p \<longrightarrow> \<not> checkGuess ''higher'' p n \<and> \<not> checkGuess ''lower'' p n)"
  by (cases s; cases "suit n"; simp add: checkGuess_def)

text \<open>The table at the nine of spades after the nine of diamonds.\<close>

theorem checkGuess_table_witness:
  "cvalue \<lparr>suit = spades, cvalue = 9\<rparr> = cvalue \<lparr>suit = diamonds, cvalue = 9\<rparr> \<and>
   \<not> checkGuess ''higher'' \<lparr>suit = diamonds, cvalue = 9\<rparr> \<lparr>suit = spades, cvalue = 9\<rparr> \<and>
   \<not> checkGuess ''lower'' \<lparr>suit = diamonds, cvalue = 9\<rparr> \<lparr>suit = spades, cvalue = 9\<rparr> \<and>
   checkGuess ''inside'' \<lparr>suit = diamonds, cvalue = 9\<rparr> \<lparr>suit = spades, cvalue = 9\<rparr> \<and>
   checkGuess ''black'' \<lparr>suit = diamonds, cvalue = 9\<rparr> \<lparr>suit = spades, cvalue = 9\<rparr> \<and>
   checkGuess ''spades'' \<lparr>suit = diamonds, cvalue = 9\<rparr> \<lparr>suit = spades, cvalue = 9\<rparr>"
  using checkGuess_table [of "\<lparr>suit = diamonds, cvalue = 9\<rparr>" "\<lparr>suit = spades, cvalue = 9\<rparr>" spades]
  by simp

text \<open>
  Claim C1 as the specification states it lets equal rank count as correct for \<open>higher\<close>
  and for \<open>lower\<close>. The seven of clubs after the seven of hearts is judged incorrect for both.
\<close>

theorem checkGuess_tie_counterexample:
  "cvalue \<lparr>suit = clubs, cvalue = 7\<rparr> = cvalue \<lparr>suit = hearts, cvalue = 7\<rparr> \<and>
   \<not> checkGuess ''higher'' \<lparr>suit = hearts, cvalue = 7\<rparr> \<lparr>suit = clubs, cvalue = 7\<rparr> \<and>
   \<not> checkGuess ''lower'' \<lparr>suit = hearts, cvalue = 7\<rparr> \<lparr>suit = clubs, cvalue = 7\<rparr>"
  by (simp add: checkGuess_def)

section \<open>Processing a guess\<close>

text \<open>
  Claim C2. In a started room with a current card and a non-empty deck, a \<open>guess\<close> message
  of a socket of the room draws the top card, adds one to the sender's score iff
  \<open>checkGuess\<close> accepts the guess, advances the stage by \<open>getNextStage\<close> (red_black,
  higher_lower, inside_outside, suit, none), makes the drawn card the current card and
  broadcasts \<open>guessResult\<close> with the new score, the next stage and the new card
  (\<open>spec_guess\<close>); when the next stage is none, game-over runs on that state in the same step.
\<close>

theorem guess_evaluated:
  assumes "handlers w x = Some (RoomHandler r)"
    and "isGameStarted (roomObj w r)"
    and "currentCard (roomObj w r) = Some cur"
    and "deck (roomObj w r) \<noteq> []"
  shows "onMessage x (GuessMsg g) now rnd w =
           (if getNextStage (stage (roomObj w r)) = None
            then handleGameOver r now (spec_guess x r g cur now w)
            else spec_guess x r g cur now w)
         \<and> map getNextStage [Some red_black, Some higher_lower, Some inside_outside, Some suit_stage]
             = [Some higher_lower, Some inside_outside, Some suit_stage, None]"
  using assms
  by (simp add: onMessage_def roomMessage_def guess_active touch_fields spec_guess_touch)

text \<open>
  In the example Alice holds the ace of hearts and guesses \<open>black\<close>; the king of spades
  is drawn, her score becomes 1 and the stage higher_lower.
\<close>

theorem guess_evaluated_witness:
  "handlers started 0 = Some (RoomHandler 0) \<and> isGameStarted (roomObj started 0) \<and>
   currentCard (roomObj started 0) = Some \<lparr>suit = hearts, cvalue = 1\<rparr> \<and>
   deck (roomObj started 0) \<noteq> [] \<and>
   score (playerObj (onMessage 0 (GuessMsg ''black'') 40 rnd0 started) 0) = 1 \<and>
   stage (roomObj (onMessage 0 (GuessMsg ''black'') 40 rnd0 started) 0) = Some higher_lower \<and>
   currentCard (roomObj (onMessage 0 (GuessMsg ''black'') 40 rnd0 started) 0)
     = Some \<lparr>suit = spades, cvalue = 13\<rparr> \<and>
   outbox (onMessage 0 (GuessMsg ''black'') 40 rnd0 started) = outbox started @
     [Send 0 (GuessResult ''Alice'' 1 True (Some higher_lower) (Some \<lparr>suit = spades, cvalue = 13\<rparr>)),
      Send 1 (GuessResult ''Alice'' 1 True (Some higher_lower) (Some \<lparr>suit = spades, cvalue = 13\<rparr>))]"
  using guess_evaluated [of started 0 0 "\<lparr>suit = hearts, cvalue = 1\<rparr>" "''black''" 40 rnd0]
  by (simp add: started_facts reset_rnd0_nonempty reset_rnd0 spec_guess_def Let_def checkGuess_def)

text \<open>
  Claim C3. In a started room with a current card and an empty deck, a \<open>guess\<close> message is
  answered with no error: the step is game-over on the state as it is (\<open>spec_gameOver\<close>):
  \<open>gameOver\<close> with the present scores goes to the open sockets of the room, the room
  returns to waiting and no score changes.
\<close>

theorem guess_on_empty_deck:
  assumes "handlers w x = Some (RoomHandler r)"
    and "isGameStarted (roomObj w r)"
    and "currentCard (roomObj w r) = Some cur"
    and "deck (roomObj w r) = []"
  shows "onMessage x (GuessMsg g) now rnd w = spec_gameOver r now w \<and>
         (\<forall>e \<in> set (drop (length (outbox w)) (outbox (onMessage x (GuessMsg g) now rnd w))). \<not> is_error e)"
proof -
  have eq: "onMessage x (GuessMsg g) now rnd w = spec_gameOver r now w"
    using assms
    by (simp add: onMessage_def roomMessage_def guess_empty_deck touch_fields handleGameOver_eq
        spec_gameOver_touch)
  have "\<not> is_error e" if "e \<in> set (deliveries w r (GameOver (spec_winners w r) (projection w r)))" for e
    using that by (rule deliveries_no_error [rotated]) simp
  then show ?thesis unfolding eq by (simp add: spec_gameOver_def)
qed

theorem guess_on_empty_deck_witness:
  "handlers drained 1 = Some (RoomHandler 0) \<and> isGameStarted (roomObj drained 0) \<and>
   currentCard (roomObj drained 0) = Some \<lparr>suit = hearts, cvalue = 1\<rparr> \<and>
   deck (roomObj drained 0) = [] \<and>
   outbox (onMessage 1 (GuessMsg ''red'') 40 rnd0 drained) = outbox drained @
     [Send 0 (GameOver [''Alice'', ''Bob''] [(''Alice'', 0), (''Bob'', 0)]),
      Send 1 (GameOver [''Alice'', ''Bob''] [(''Alice'', 0), (''Bob'', 0)])] \<and>
   \<not> isGameStarted (roomObj (onMessage 1 (GuessMsg ''red'') 40 rnd0 drained) 0) \<and>
   stage (roomObj (onMessage 1 (GuessMsg ''red'') 40 rnd0 drained) 0) = None \<and>
   currentCard (roomObj (onMessage 1 (GuessMsg ''red'') 40 rnd0 drained) 0) = None \<and>
   playerObj (onMessage 1 (GuessMsg ''red'') 40 rnd0 drained) = playerObj drained"
proof -
  have h: "handlers drained 1 = Some (RoomHandler 0)"
    by (simp add: drained_def modRoom_def started_eq)
  show ?thesis
    using h guess_on_empty_deck [OF h drained_facts(2,3,4), of "''red''" 40 rnd0]
    by (simp add: drained_facts spec_gameOver_def)
qed

section \<open>Starting a game\<close>



section \<open>Game-over\<close>

text \<open>
  Claim C4. \<open>handleGameOver\<close> is game-over as the specification describes it
  (\<open>spec_gameOver\<close>): the winners are the players of the room whose score is the maximum
  of the scores of the room, all of them when several share it; \<open>gameOver\<close> with the
  winners and the scores goes to the open sockets of the room; the room is reset to
  waiting (not started, no stage, no current card). No player object changes, and a
  \<open>startGame\<close> message after it leaves the player objects, hence the scores, as they were.
\<close>

theorem gameOver_result:
  "handleGameOver r now w = spec_gameOver r now w \<and>
   (players (roomObj w r) \<noteq> [] \<longrightarrow>
      spec_winners w r =
        map (\<lambda>p. name (playerObj w p))
          (filter (\<lambda>p. score (playerObj w p) = Max ((\<lambda>q. score (playerObj w q)) ` set (players (roomObj w r))))
                  (players (roomObj w r)))) \<and>
   playerObj (handleGameOver r now w) = playerObj w \<and>
   playerObj (onMessage x StartGameMsg now' rnd (handleGameOver r now w)) = playerObj w"
  by (simp add: handleGameOver_eq spec_winners_Max onMessage_StartGame_playerObj)
     (simp add: spec_gameOver_def)

text \<open>In the example both players have score 0 and both win.\<close>

theorem gameOver_result_witness:
  "players (roomObj started 0) \<noteq> [] \<and>
   \<not> isGameStarted (roomObj (handleGameOver 0 40 started) 0) \<and>
   stage (roomObj (handleGameOver 0 40 started) 0) = None \<and>
   currentCard (roomObj (handleGameOver 0 40 started) 0) = None \<and>
   outbox (handleGameOver 0 40 started) = outbox started @
     [Send 0 (GameOver [''Alice'', ''Bob''] [(''Alice'', 0), (''Bob'', 0)]),
      Send 1 (GameOver [''Alice'', ''Bob''] [(''Alice'', 0), (''Bob'', 0)])] \<and>
   playerObj (onMessage 0 StartGameMsg 50 rnd0 (handleGameOver 0 40 started)) = playerObj started"
proof -
  have w: "spec_winners started 0 = [''Alice'', ''Bob'']"
    "projection started 0 = [(''Alice'', 0), (''Bob'', 0)]"
    by (simp_all add: started_eq spec_winners_def projection_def)
  note g = gameOver_result [of 0 40 started 0 50 rnd0]
  have e: "handleGameOver 0 40 started = spec_gameOver 0 40 started"
    using g by (rule conjunct1)
  have k: "playerObj (onMessage 0 StartGameMsg 50 rnd0 (handleGameOver 0 40 started)) = playerObj started"
    using g by blast
  show ?thesis
    unfolding k unfolding e using w started_facts
    by (simp add: spec_gameOver_def)
qed

section \<open>Messages in the wrong state\<close>

text \<open>
  Claim C8, as the code has it. A \<open>guess\<close> message of a socket of a room that is not
  started, or has no current card, is answered to the sender alone with the error
  \<open>GAME_NOT_ACTIVE\<close>; no socket is closed and nothing changes but the activity time stamp of
  the room. A \<open>startGame\<close> message in a room that is started is ignored: nothing is sent
  and nothing changes but the activity time stamp.
\<close>

theorem not_active_replies:
  assumes "handlers w x = Some (RoomHandler r)"
  shows "(\<not> isGameStarted (roomObj w r) \<or> currentCard (roomObj w r) = None \<longrightarrow>
            onMessage x (GuessMsg g) now rnd w =
              w\<lparr>roomObj := (roomObj w)(r := (roomObj w r)\<lparr>lastActivity := now\<rparr>),
                outbox := outbox w @ [Send x (ErrorMsg GAME_NOT_ACTIVE ''Game is not active'')]\<rparr>)
       \<and> (isGameStarted (roomObj w r) \<longrightarrow>
            onMessage x StartGameMsg now rnd w
              = w\<lparr>roomObj := (roomObj w)(r := (roomObj w r)\<lparr>lastActivity := now\<rparr>)\<rparr>)"
proof (intro conjI impI)
  let ?t = "modRoom r (\<lambda>R. R\<lparr>lastActivity := now\<rparr>) w"
  assume "\<not> isGameStarted (roomObj w r) \<or> currentCard (roomObj w r) = None"
  then have "\<not> isGameStarted (roomObj ?t r) \<or> currentCard (roomObj ?t r) = None"
    by (simp add: touch_fields)
  from guess_inactive[OF this]
  show "onMessage x (GuessMsg g) now rnd w =
              w\<lparr>roomObj := (roomObj w)(r := (roomObj w r)\<lparr>lastActivity := now\<rparr>),
                outbox := outbox w @ [Send x (ErrorMsg GAME_NOT_ACTIVE ''Game is not active'')]\<rparr>"
    using assms by (simp add: onMessage_def roomMessage_def send_def modRoom_def)
next
  assume "isGameStarted (roomObj w r)"
  then show "onMessage x StartGameMsg now rnd w
              = w\<lparr>roomObj := (roomObj w)(r := (roomObj w r)\<lparr>lastActivity := now\<rparr>)\<rparr>"
    using assms by (simp add: onMessage_def roomMessage_def startGame_started touch_fields touch_eq)
qed

theorem not_active_replies_witness:
  "handlers lobby 1 = Some (RoomHandler 0) \<and>
   \<not> isGameStarted (roomObj lobby 0) \<and>
   outbox (onMessage 1 (GuessMsg ''red'') 30 rnd0 lobby)
     = outbox lobby @ [Send 1 (ErrorMsg GAME_NOT_ACTIVE ''Game is not active'')] \<and>
   readyState (onMessage 1 (GuessMsg ''red'') 30 rnd0 lobby) = readyState lobby \<and>
   handlers started 1 = Some (RoomHandler 0) \<and> isGameStarted (roomObj started 0) \<and>
   outbox (onMessage 1 StartGameMsg 40 rnd0 started) = outbox started"
proof -
  have l: "handlers lobby 1 = Some (RoomHandler 0)" "\<not> isGameStarted (roomObj lobby 0)"
    by (simp_all add: lobby_eq)
  show ?thesis
    using l started_facts(2,3) not_active_replies [OF l(1), of "''red''" 30 rnd0]
      not_active_replies [OF started_facts(2), of "''red''" 40 rnd0]
    by simp
qed

text \<open>
  Claim C8 as the specification states it has a \<open>startGame\<close> in the wrong state answered
  with a \<open>GameNotActive\<close> error. In the started example room Alice's \<open>startGame\<close> is
  answered with nothing.
\<close>

theorem startGame_when_started_counterexample:
  "handlers started 0 = Some (RoomHandler 0) \<and> isGameStarted (roomObj started 0) \<and>
   outbox (onMessage 0 StartGameMsg 40 rnd0 started) = outbox started"
  using started_facts(1,3)
  by (simp add: onMessage_def roomMessage_def startGame_started touch_fields)

section \<open>Duplicate connections\<close>

text \<open>
  Claim C9. In every state the server can reach, when a connection arrives with room and
  name whose key \<open>room:name\<close> is registered for a socket that is open, the new socket
  is closed with the code \<open>DUPLICATE_CONNECTION\<close> and nothing else happens: the
  registered socket stays registered and open with its handlers, and the maps, the rooms
  and the players are as they were.
\<close>

theorem duplicate_rejected:
  assumes "reachable w"
    and "i \<noteq> []" and "n \<noteq> []"
    and "connections w (i @ '':'' @ n) = Some e"
    and "readyState w e = OPEN"
  shows "onConnection (Some i) (Some n) now rnd w =
           w\<lparr>nextWs := Suc (nextWs w),
             readyState := (readyState w)(nextWs w := CLOSING),
             outbox := outbox w @ [Close (nextWs w) DUPLICATE_CONNECTION ''You are already connected to this room'']\<rparr>
         \<and> connections (onConnection (Some i) (Some n) now rnd w) (i @ '':'' @ n) = Some e
         \<and> readyState (onConnection (Some i) (Some n) now rnd w) e = OPEN
         \<and> handlers (onConnection (Some i) (Some n) now rnd w) = handlers w
         \<and> playerMap (onConnection (Some i) (Some n) now rnd w) = playerMap w
         \<and> rooms (onConnection (Some i) (Some n) now rnd w) = rooms w
         \<and> roomObj (onConnection (Some i) (Some n) now rnd w) = roomObj w
         \<and> playerObj (onConnection (Some i) (Some n) now rnd w) = playerObj w"
proof -
  have "e < nextWs w"
    using reachable_sockets_known [OF assms(1)] assms(4) by (rule sockets_knownD)
  then have new: "e \<noteq> nextWs w" by simp
  have eq: "onConnection (Some i) (Some n) now rnd w =
           w\<lparr>nextWs := Suc (nextWs w),
             readyState := (readyState w)(nextWs w := CLOSING),
             outbox := outbox w @ [Close (nextWs w) DUPLICATE_CONNECTION ''You are already connected to this room'']\<rparr>"
    using assms(2-5) new
    by (simp add: onConnection_def admit_def ws_close_def Let_def)
  show ?thesis unfolding eq using assms(4,5) new by simp
qed

text \<open>A second connection for Alice while her first socket is open.\<close>

theorem duplicate_rejected_witness:
  "reachable lobby \<and> ''ABC123'' \<noteq> [] \<and> ''Alice'' \<noteq> [] \<and>
   connections lobby (''ABC123'' @ '':'' @ ''Alice'') = Some 0 \<and>
   readyState lobby 0 = OPEN \<and>
   outbox (onConnection (Some ''ABC123'') (Some ''Alice'') 30 rnd0 lobby)
     = outbox lobby @ [Close 2 4001 ''You are already connected to this room''] \<and>
   readyState (onConnection (Some ''ABC123'') (Some ''Alice'') 30 rnd0 lobby) 2 = CLOSING \<and>
   readyState (onConnection (Some ''ABC123'') (Some ''Alice'') 30 rnd0 lobby) 0 = OPEN \<and>
   players (roomObj (onConnection (Some ''ABC123'') (Some ''Alice'') 30 rnd0 lobby) 0) = [0, 1]"
proof -
  have r: "reachable lobby"
    unfolding lobby_def
    by (intro reachable_step reachable_initial unit_interval_rnd0)
  have l: "''ABC123'' \<noteq> []" "''Alice'' \<noteq> []"
    "connections lobby (''ABC123'' @ '':'' @ ''Alice'') = Some 0"
    "readyState lobby 0 = OPEN"
    by (simp_all add: lobby_eq)
  have m: "nextWs lobby = 2" "players (roomObj lobby 0) = [0, 1]"
    by (simp_all add: lobby_eq)
  show ?thesis
    using r l m duplicate_rejected [OF r l, of 30 rnd0]
    by (simp add: DUPLICATE_CONNECTION_def)
qed


section \<open>Guess tokens and the stage\<close>

text \<open>
  Claim C10. \<open>checkGuess\<close> has no stage argument, and the score after a \<open>guess\<close> message
  does not depend on the stage of any room. A token other than the six words red, black,
  higher, lower, inside and outside is compared with the suit of the next card, so a
  token that is no suit name either is incorrect. In a started room with a current card
  and a non-empty deck the sender's score grows by one iff \<open>checkGuess\<close> accepts the
  token, whatever the stage, and no error is sent; in stage red_black the token
  \<open>hearts\<close> scores iff the drawn card is a heart.
\<close>

theorem checkGuess_ignores_stage:
  "(g \<notin> {''red'', ''black'', ''higher'', ''lower'', ''inside'', ''outside''} \<longrightarrow>
      checkGuess g cur n = (suit_str (suit n) = g)) \<and>
   (g \<notin> {''red'', ''black'', ''higher'', ''lower'', ''inside'', ''outside'',
          ''hearts'', ''diamonds'', ''clubs'', ''spades''} \<longrightarrow> \<not> checkGuess g cur n) \<and>
   score (playerObj (onMessage x (GuessMsg g) now rnd (modRoom r' (\<lambda>R. R\<lparr>stage := st\<rparr>) w)) x)
     = score (playerObj (onMessage x (GuessMsg g) now rnd w) x) \<and>
   (handlers w x = Some (RoomHandler r) \<and> isGameStarted (roomObj w r) \<and>
    currentCard (roomObj w r) = Some cur \<and> deck (roomObj w r) \<noteq> [] \<longrightarrow>
      score (playerObj (onMessage x (GuessMsg g) now rnd w) x)
        = score (playerObj w x) + (if checkGuess g cur (last (deck (roomObj w r))) then 1 else 0) \<and>
      (\<forall>e \<in> set (drop (length (outbox w)) (outbox (onMessage x (GuessMsg g) now rnd w))). \<not> is_error e)) \<and>
   (handlers w x = Some (RoomHandler r) \<and> isGameStarted (roomObj w r) \<and>
    currentCard (roomObj w r) = Some cur \<and> deck (roomObj w r) \<noteq> [] \<and>
    stage (roomObj w r) = Some red_black \<longrightarrow>
      score (playerObj (onMessage x (GuessMsg ''hearts'') now rnd w) x)
        = score (playerObj w x) + (if suit (last (deck (roomObj w r))) = hearts then 1 else 0))"
proof (intro conjI impI)
  show "checkGuess g cur n = (suit_str (suit n) = g)"
    if "g \<notin> {''red'', ''black'', ''higher'', ''lower'', ''inside'', ''outside''}"
    using that by (simp add: checkGuess_def)
  show "\<not> checkGuess g cur n"
    if "g \<notin> {''red'', ''black'', ''higher'', ''lower'', ''inside'', ''outside'',
          ''hearts'', ''diamonds'', ''clubs'', ''spades''}"
    using that by (cases "suit n") (auto simp add: checkGuess_def)
  show "score (playerObj (onMessage x (GuessMsg g) now rnd (modRoom r' (\<lambda>R. R\<lparr>stage := st\<rparr>) w)) x)
     = score (playerObj (onMessage x (GuessMsg g) now rnd w) x)"
    by (rule onMessage_score_stage)
next
  assume a: "handlers w x = Some (RoomHandler r) \<and> isGameStarted (roomObj w r) \<and>
    currentCard (roomObj w r) = Some cur \<and> deck (roomObj w r) \<noteq> []"
  then show "score (playerObj (onMessage x (GuessMsg g) now rnd w) x)
        = score (playerObj w x) + (if checkGuess g cur (last (deck (roomObj w r))) then 1 else 0)"
    by (simp add: onMessage_def roomMessage_def guess_playerObj touch_fields)
  let ?w' = "onMessage x (GuessMsg g) now rnd w"
  let ?gr = "GuessResult (name (playerObj w x))
        (score (playerObj w x) + (if checkGuess g cur (last (deck (roomObj w r))) then 1 else 0))
        (checkGuess g cur (last (deck (roomObj w r)))) (getNextStage (stage (roomObj w r)))
        (Some (last (deck (roomObj w r))))"
  have eq: "?w' = (if getNextStage (stage (roomObj w r)) = None
            then spec_gameOver r now (spec_guess x r g cur now w)
            else spec_guess x r g cur now w)"
    using a by (simp add: onMessage_def roomMessage_def guess_active touch_fields spec_guess_touch handleGameOver_eq)
  have "\<exists>m. drop (length (outbox w)) (outbox ?w') = deliveries w r ?gr @ m \<and> (\<forall>e \<in> set m. \<not> is_error e)"
  proof (cases "getNextStage (stage (roomObj w r)) = None")
    case True
    let ?s = "spec_guess x r g cur now w"
    have "drop (length (outbox w)) (outbox ?w')
       = deliveries w r ?gr @ deliveries ?s r (GameOver (spec_winners ?s r) (projection ?s r))"
      unfolding eq using True by (simp add: spec_gameOver_def) (simp add: spec_guess_def Let_def)
    moreover have "\<forall>e \<in> set (deliveries ?s r (GameOver (spec_winners ?s r) (projection ?s r))). \<not> is_error e"
      by (auto dest: deliveries_no_error [rotated])
    ultimately show ?thesis by blast
  next
    case False
    from False have e2: "?w' = spec_guess x r g cur now w"
      unfolding eq by (simp only: if_False)
    have "drop (length (outbox w)) (outbox ?w') = deliveries w r ?gr @ []"
      unfolding e2 by (simp add: spec_guess_def Let_def)
    then show ?thesis by (intro exI [of _ "[]"]) simp
  qed
  moreover have "\<forall>e \<in> set (deliveries w r ?gr). \<not> is_error e"
    by (auto dest: deliveries_no_error [rotated])
  ultimately show "\<forall>e \<in> set (drop (length (outbox w)) (outbox ?w')). \<not> is_error e"
    by auto
next
  assume "handlers w x = Some (RoomHandler r) \<and> isGameStarted (roomObj w r) \<and>
    currentCard (roomObj w r) = Some cur \<and> deck (roomObj w r) \<noteq> [] \<and>
    stage (roomObj w r) = Some red_black"
  then show "score (playerObj (onMessage x (GuessMsg ''hearts'') now rnd w) x)
        = score (playerObj w x) + (if suit (last (deck (roomObj w r))) = hearts then 1 else 0)"
    by (cases "suit (last (deck (roomObj w r)))")
       (simp_all add: onMessage_def roomMessage_def guess_playerObj touch_fields checkGuess_def)
qed

text \<open>
  In the example the stage is red_black and the king of spades is on top of the deck:
  \<open>spades\<close> scores, \<open>hearts\<close> and \<open>banana\<close> do not, and \<open>banana\<close> is answered with no error.
\<close>

theorem checkGuess_ignores_stage_witness:
  "''spades'' \<notin> {''red'', ''black'', ''higher'', ''lower'', ''inside'', ''outside''} \<and>
   ''banana'' \<notin> {''red'', ''black'', ''higher'', ''lower'', ''inside'', ''outside'',
          ''hearts'', ''diamonds'', ''clubs'', ''spades''} \<and>
   handlers started 0 = Some (RoomHandler 0) \<and> isGameStarted (roomObj started 0) \<and>
   currentCard (roomObj started 0) = Some \<lparr>suit = hearts, cvalue = 1\<rparr> \<and>
   deck (roomObj started 0) \<noteq> [] \<and> stage (roomObj started 0) = Some red_black \<and>
   last (deck (roomObj started 0)) = \<lparr>suit = spades, cvalue = 13\<rparr> \<and>
   score (playerObj (onMessage 0 (GuessMsg ''spades'') 40 rnd0 started) 0) = 1 \<and>
   score (playerObj (onMessage 0 (GuessMsg ''hearts'') 40 rnd0 started) 0) = 0 \<and>
   score (playerObj (onMessage 0 (GuessMsg ''banana'') 40 rnd0 started) 0) = 0 \<and>
   filter is_error
     (drop (length (outbox started)) (outbox (onMessage 0 (GuessMsg ''banana'') 40 rnd0 started))) = []"
proof -
  let ?ace = "\<lparr>suit = hearts, cvalue = 1\<rparr>"
  let ?king = "\<lparr>suit = spades, cvalue = 13\<rparr>"
  have f: "handlers started 0 = Some (RoomHandler 0)" "isGameStarted (roomObj started 0)"
    "currentCard (roomObj started 0) = Some ?ace" "deck (roomObj started 0) \<noteq> []"
    "stage (roomObj started 0) = Some red_black" "last (deck (roomObj started 0)) = ?king"
    "score (playerObj started 0) = 0"
    by (simp_all add: started_facts reset_rnd0_nonempty reset_rnd0)
  have c: "checkGuess ''spades'' ?ace ?king" "\<not> checkGuess ''banana'' ?ace ?king"
    using checkGuess_ignores_stage [of "''spades''" ?ace ?king]
      checkGuess_ignores_stage [of "''banana''" ?ace ?king]
    by simp_all
  show ?thesis
    using f c
      checkGuess_ignores_stage [of "''spades''" ?ace ?king 0 40 rnd0 0 None started 0]
      checkGuess_ignores_stage [of "''banana''" ?ace ?king 0 40 rnd0 0 None started 0]
    by (simp add: filter_empty_conv)
qed

section \<open>The invariant of waiting rooms\<close>

text \<open>
  Claim C5. In every state the server can reach (after any sequence of connections, joins,
  messages, disconnects and cleanup sweeps), every room object that is not started has
  no current card and no stage; so a room with a current card is started. This holds for
  the rooms of the room store and for the rooms that message handlers still hold.
  Conversely a started room has a current card and a stage.
\<close>

theorem waiting_room_has_no_card:
  assumes "reachable w"
  shows "(\<not> isGameStarted (roomObj w r) \<longrightarrow>
            currentCard (roomObj w r) = None \<and> stage (roomObj w r) = None) \<and>
         (currentCard (roomObj w r) \<noteq> None \<longrightarrow> isGameStarted (roomObj w r)) \<and>
         (isGameStarted (roomObj w r) \<longrightarrow>
            currentCard (roomObj w r) \<noteq> None \<and> stage (roomObj w r) \<noteq> None)"
proof -
  from reachable_all_ok [OF assms] have ok: "room_ok (roomObj w r)"
    by (simp add: all_ok_def)
  have waiting: "currentCard (roomObj w r) = None \<and> stage (roomObj w r) = None"
    if "\<not> isGameStarted (roomObj w r)"
    using ok that by (simp add: room_ok_def)
  have running: "currentCard (roomObj w r) \<noteq> None \<and> stage (roomObj w r) \<noteq> None"
    if "isGameStarted (roomObj w r)"
    using started_room_has_cards [OF assms that] by (elim conjE) (intro conjI)
  have card: "isGameStarted (roomObj w r)" if "currentCard (roomObj w r) \<noteq> None"
  proof (rule ccontr)
    assume "\<not> isGameStarted (roomObj w r)"
    then have "currentCard (roomObj w r) = None" by (rule waiting [THEN conjunct1])
    with that show False by (rule notE)
  qed
  show ?thesis
  proof (intro conjI impI)
    assume "\<not> isGameStarted (roomObj w r)"
    then show "currentCard (roomObj w r) = None" by (rule waiting [THEN conjunct1])
  next
    assume "\<not> isGameStarted (roomObj w r)"
    then show "stage (roomObj w r) = None" by (rule waiting [THEN conjunct2])
  next
    assume "currentCard (roomObj w r) \<noteq> None"
    then show "isGameStarted (roomObj w r)" by (rule card)
  next
    assume "isGameStarted (roomObj w r)"
    then show "currentCard (roomObj w r) \<noteq> None" by (rule running [THEN conjunct1])
  next
    assume "isGameStarted (roomObj w r)"
    then show "stage (roomObj w r) \<noteq> None" by (rule running [THEN conjunct2])
  qed
qed

text \<open>The example room before the game is started, and after.\<close>

theorem waiting_room_has_no_card_witness:
  "reachable lobby \<and> \<not> isGameStarted (roomObj lobby 0) \<and>
   currentCard (roomObj lobby 0) = None \<and> stage (roomObj lobby 0) = None \<and>
   reachable started \<and> currentCard (roomObj started 0) \<noteq> None \<and>
   isGameStarted (roomObj started 0)"
proof -
  have r: "reachable lobby"
    unfolding lobby_def
    by (intro reachable_step reachable_initial unit_interval_rnd0)
  have s: "reachable started"
    unfolding started_def using r unit_interval_rnd0 by (rule reachable_step)
  have n: "\<not> isGameStarted (roomObj lobby 0)"
    by (simp add: lobby_eq)
  have c: "currentCard (roomObj started 0) \<noteq> None"
    by (simp add: started_facts)
  note a = waiting_room_has_no_card [OF r, of 0, THEN conjunct1, rule_format, OF n]
  note b = waiting_room_has_no_card [OF s, of 0, THEN conjunct2, THEN conjunct1, rule_format, OF c]
  from r n a s c b show ?thesis by (intro conjI) (erule conjunct1 conjunct2 | assumption)+
qed


section \<open>A whole round\<close>

text \<open>
  Claim C6. From a room that is not started, a \<open>startGame\<close> message followed by four
  \<open>guess\<close> messages of sockets of the room runs through the stages red_black,
  higher_lower, inside_outside and suit (each guess draws a card: the deck holds 51
  after the start) and ends the round: after the fourth guess the room is not started
  and has no stage and no current card. No score has decreased on the way, and the next
  \<open>startGame\<close> leaves every player object, hence every score, as the round left it.
\<close>

theorem round_trip:
  assumes "\<not> isGameStarted (roomObj w r)"
    and "unit_interval rnd"
    and "handlers w x0 = Some (RoomHandler r)"
    and "handlers w x1 = Some (RoomHandler r)"
    and "handlers w x2 = Some (RoomHandler r)"
    and "handlers w x3 = Some (RoomHandler r)"
    and "handlers w x4 = Some (RoomHandler r)"
  shows "let w1 = onMessage x0 StartGameMsg t0 rnd w;
             w2 = onMessage x1 (GuessMsg g1) t1 rnd1 w1;
             w3 = onMessage x2 (GuessMsg g2) t2 rnd2 w2;
             w4 = onMessage x3 (GuessMsg g3) t3 rnd3 w3;
             w5 = onMessage x4 (GuessMsg g4) t4 rnd4 w4
         in isGameStarted (roomObj w1 r) \<and> stage (roomObj w1 r) = Some red_black \<and>
            isGameStarted (roomObj w2 r) \<and> stage (roomObj w2 r) = Some higher_lower \<and>
            isGameStarted (roomObj w3 r) \<and> stage (roomObj w3 r) = Some inside_outside \<and>
            isGameStarted (roomObj w4 r) \<and> stage (roomObj w4 r) = Some suit_stage \<and>
            \<not> isGameStarted (roomObj w5 r) \<and> stage (roomObj w5 r) = None \<and>
            currentCard (roomObj w5 r) = None \<and>
            (\<forall>p. score (playerObj w p) \<le> score (playerObj w5 p)) \<and>
            playerObj (onMessage x5 StartGameMsg t5 rnd5 w5) = playerObj w5"
proof -
  define w1 where "w1 = onMessage x0 StartGameMsg t0 rnd w"
  define w2 where "w2 = onMessage x1 (GuessMsg g1) t1 rnd1 w1"
  define w3 where "w3 = onMessage x2 (GuessMsg g2) t2 rnd2 w2"
  define w4 where "w4 = onMessage x3 (GuessMsg g3) t3 rnd3 w3"
  define w5 where "w5 = onMessage x4 (GuessMsg g4) t4 rnd4 w4"
  have s1: "isGameStarted (roomObj w1 r) \<and> currentCard (roomObj w1 r) \<noteq> None \<and>
            length (deck (roomObj w1 r)) = 51 \<and> stage (roomObj w1 r) = Some red_black \<and>
            handlers w1 = handlers w \<and> playerObj w1 = playerObj w"
    unfolding w1_def using assms(3,2,1) by (rule startGame_begins)
  have s2: "isGameStarted (roomObj w2 r) \<and> currentCard (roomObj w2 r) \<noteq> None \<and>
            length (deck (roomObj w2 r)) = 50 \<and> stage (roomObj w2 r) = Some higher_lower \<and>
            handlers w2 = handlers w1 \<and> (\<forall>p. score (playerObj w1 p) \<le> score (playerObj w2 p))"
    unfolding w2_def using s1 assms(4) by (intro guess_advances [where st = red_black]) simp_all
  have s3: "isGameStarted (roomObj w3 r) \<and> currentCard (roomObj w3 r) \<noteq> None \<and>
            length (deck (roomObj w3 r)) = 49 \<and> stage (roomObj w3 r) = Some inside_outside \<and>
            handlers w3 = handlers w2 \<and> (\<forall>p. score (playerObj w2 p) \<le> score (playerObj w3 p))"
    unfolding w3_def using s1 s2 assms(5) by (intro guess_advances [where st = higher_lower]) simp_all
  have s4: "isGameStarted (roomObj w4 r) \<and> currentCard (roomObj w4 r) \<noteq> None \<and>
            length (deck (roomObj w4 r)) = 48 \<and> stage (roomObj w4 r) = Some suit_stage \<and>
            handlers w4 = handlers w3 \<and> (\<forall>p. score (playerObj w3 p) \<le> score (playerObj w4 p))"
    unfolding w4_def using s1 s2 s3 assms(6) by (intro guess_advances [where st = inside_outside]) simp_all
  have s5: "\<not> isGameStarted (roomObj w5 r) \<and> currentCard (roomObj w5 r) = None \<and>
            stage (roomObj w5 r) = None \<and> handlers w5 = handlers w4 \<and>
            (\<forall>p. score (playerObj w4 p) \<le> score (playerObj w5 p))"
    unfolding w5_def using s1 s2 s3 s4 assms(7) by (intro guess_finishes [where k = 47]) simp_all
  have mono: "score (playerObj w p) \<le> score (playerObj w5 p)" for p
  proof -
    have "score (playerObj w p) = score (playerObj w1 p)" using s1 by simp
    also have "\<dots> \<le> score (playerObj w2 p)" using s2 by simp
    also have "\<dots> \<le> score (playerObj w3 p)" using s3 by simp
    also have "\<dots> \<le> score (playerObj w4 p)" using s4 by simp
    also have "\<dots> \<le> score (playerObj w5 p)" using s5 by simp
    finally show ?thesis .
  qed
  have "isGameStarted (roomObj w1 r) \<and> stage (roomObj w1 r) = Some red_black \<and>
            isGameStarted (roomObj w2 r) \<and> stage (roomObj w2 r) = Some higher_lower \<and>
            isGameStarted (roomObj w3 r) \<and> stage (roomObj w3 r) = Some inside_outside \<and>
            isGameStarted (roomObj w4 r) \<and> stage (roomObj w4 r) = Some suit_stage \<and>
            \<not> isGameStarted (roomObj w5 r) \<and> stage (roomObj w5 r) = None \<and>
            currentCard (roomObj w5 r) = None \<and>
            (\<forall>p. score (playerObj w p) \<le> score (playerObj w5 p)) \<and>
            playerObj (onMessage x5 StartGameMsg t5 rnd5 w5) = playerObj w5"
    using s1 s2 s3 s4 s5 mono by (simp add: onMessage_StartGame_playerObj)
  then show ?thesis
    unfolding w1_def w2_def w3_def w4_def w5_def Let_def .
qed

theorem round_trip_witness:
  "\<not> isGameStarted (roomObj lobby 0) \<and> unit_interval rnd0 \<and>
   handlers lobby 0 = Some (RoomHandler 0) \<and> handlers lobby 1 = Some (RoomHandler 0) \<and>
   \<not> isGameStarted (roomObj round_end 0) \<and> stage (roomObj round_end 0) = None \<and>
   currentCard (roomObj round_end 0) = None \<and>
   playerObj (onMessage 0 StartGameMsg 90 rnd0 round_end) = playerObj round_end"
proof -
  have l: "\<not> isGameStarted (roomObj lobby 0)" "handlers lobby 0 = Some (RoomHandler 0)"
    "handlers lobby 1 = Some (RoomHandler 0)"
    by (simp_all add: lobby_eq)
  show ?thesis
    using l unit_interval_rnd0
      round_trip [OF l(1) unit_interval_rnd0 l(2) l(2) l(3) l(2) l(3),
        of 40 "''black''" 50 rnd0 "''lower''" 60 rnd0 "''inside''" 70 rnd0 "''spades''" 80 rnd0
           0 90 rnd0]
    unfolding round_end_def Let_def by simp
qed

end
